theory Spec2Isabelle
  imports Complex_Main "HOL-Library.Multiset"
begin

section \<open>Strings and the regular expressions of the line protocol\<close>

text \<open>
  A Python \<open>str\<close> is modelled as a \<open>string\<close>, each \<open>char\<close> read as one code point
  below 256 (the Latin-1 range). On that range \<open>str.isspace\<close>, which also decides
  what \<open>\\s\<close> matches and what \<open>str.strip()\<close> removes, holds for the code points
  9 to 13, 28 to 32, 133 and 160.
\<close>

definition is_space :: "char \<Rightarrow> bool" where
  "is_space c =
     (let n = (of_char c :: nat)
      in (9 \<le> n \<and> n \<le> 13) \<or> (28 \<le> n \<and> n \<le> 32) \<or> n = 133 \<or> n = 160)"

definition is_hex :: "char \<Rightarrow> bool" where
  "is_hex c = (c \<in> set ''0123456789ABCDEFabcdef'')"

definition newline :: char where
  "newline = CHR 0x0A"

text \<open>
  The pattern anchor \<open>$\<close> (without MULTILINE) matches at the end of the string and
  also just before a newline that is the last character of the string.
\<close>

definition at_dollar :: "string \<Rightarrow> bool" where
  "at_dollar rest = (rest = [] \<or> rest = [newline])"

text \<open>\<open>str.strip()\<close>: whitespace removed from both ends.\<close>

definition strip :: "string \<Rightarrow> string" where
  "strip s = rev (dropWhile is_space (rev (dropWhile is_space s)))"

text \<open>
  \<open>str.lower()\<close> on code points below 256: the ASCII capitals and the Latin-1
  capitals 0xC0 to 0xDE (0xD7, the multiplication sign, is not a letter) move up
  by 32; everything else is unchanged.
\<close>

definition lower_table :: "(char \<times> char) list" where
  "lower_table =
     zip ''ABCDEFGHIJKLMNOPQRSTUVWXYZ'' ''abcdefghijklmnopqrstuvwxyz'' @
     zip [CHR 0xC0, CHR 0xC1, CHR 0xC2, CHR 0xC3, CHR 0xC4, CHR 0xC5, CHR 0xC6, CHR 0xC7,
          CHR 0xC8, CHR 0xC9, CHR 0xCA, CHR 0xCB, CHR 0xCC, CHR 0xCD, CHR 0xCE, CHR 0xCF,
          CHR 0xD0, CHR 0xD1, CHR 0xD2, CHR 0xD3, CHR 0xD4, CHR 0xD5, CHR 0xD6,
          CHR 0xD8, CHR 0xD9, CHR 0xDA, CHR 0xDB, CHR 0xDC, CHR 0xDD, CHR 0xDE]
         [CHR 0xE0, CHR 0xE1, CHR 0xE2, CHR 0xE3, CHR 0xE4, CHR 0xE5, CHR 0xE6, CHR 0xE7,
          CHR 0xE8, CHR 0xE9, CHR 0xEA, CHR 0xEB, CHR 0xEC, CHR 0xED, CHR 0xEE, CHR 0xEF,
          CHR 0xF0, CHR 0xF1, CHR 0xF2, CHR 0xF3, CHR 0xF4, CHR 0xF5, CHR 0xF6,
          CHR 0xF8, CHR 0xF9, CHR 0xFA, CHR 0xFB, CHR 0xFC, CHR 0xFD, CHR 0xFE]"

definition lower_char :: "char \<Rightarrow> char" where
  "lower_char c = (case map_of lower_table c of Some d \<Rightarrow> d | None \<Rightarrow> c)"

definition lower :: "string \<Rightarrow> string" where
  "lower s = map lower_char s"

text \<open>
  \<open>str.upper()\<close> is only ever applied to a string that has matched \<open>_HEX10_RE\<close>, so
  to ASCII digits and letters; the model maps the ASCII small letters to capitals
  and leaves every other character as it is.
\<close>

definition upper_char :: "char \<Rightarrow> char" where
  "upper_char c =
     (case map_of (zip ''abcdefghijklmnopqrstuvwxyz'' ''ABCDEFGHIJKLMNOPQRSTUVWXYZ'') c of
        Some d \<Rightarrow> d | None \<Rightarrow> c)"

definition upper :: "string \<Rightarrow> string" where
  "upper s = map upper_char s"

text \<open>
  \<open>int(s, 16)\<close> on a string of hexadecimal digits; \<open>None\<close> stands for the
  \<open>ValueError\<close> that the callers catch.
\<close>

definition hex_digit :: "char \<Rightarrow> nat option" where
  "hex_digit c =
     map_of (zip ''0123456789ABCDEFabcdef''
                 [0, 1, 2, 3, 4, 5, 6, 7, 8, 9, 10, 11, 12, 13, 14, 15, 10, 11, 12, 13, 14, 15]) c"

fun int16_acc :: "nat \<Rightarrow> string \<Rightarrow> nat option" where
  "int16_acc acc [] = Some acc"
| "int16_acc acc (c # cs) =
     (case hex_digit c of None \<Rightarrow> None | Some d \<Rightarrow> int16_acc (16 * acc + d) cs)"

definition int16 :: "string \<Rightarrow> nat option" where
  "int16 s = (if s = [] then None else int16_acc 0 s)"

text \<open>
  \<open>_RE_SC = re.compile(r'^SC\\s+([0-9A-Fa-f]{2})$')\<close>, applied with \<open>match\<close>: the
  result is group 1 of the match, or \<open>None\<close>. The greedy \<open>\\s+\<close> has to swallow every
  whitespace character in front of the first digit, since a digit is no whitespace.
\<close>

definition RE_SC :: "string \<Rightarrow> string option" where
  "RE_SC line =
     (if take 2 line = ''SC'' then
        (let rest = drop 2 line; digits = dropWhile is_space rest
         in if length digits < length rest \<and> 2 \<le> length digits
               \<and> is_hex (digits ! 0) \<and> is_hex (digits ! 1) \<and> at_dollar (drop 2 digits)
            then Some (take 2 digits) else None)
      else None)"

text \<open>
  \<open>_RE_ECHO_N = re.compile(r'^[IOD]>\\s+N\\s', re.IGNORECASE)\<close> of
  \<open>fi/core/injector.py\<close>, applied with \<open>match\<close>.
\<close>

definition RE_ECHO_N :: "string \<Rightarrow> bool" where
  "RE_ECHO_N line =
     (case line of
        c # g # rest \<Rightarrow>
          c \<in> set ''IODiod'' \<and> g = CHR ''>'' \<and>
          (let after = dropWhile is_space rest
           in length after < length rest \<and> 2 \<le> length after
              \<and> after ! 0 \<in> set ''Nn'' \<and> is_space (after ! 1))
      | _ \<Rightarrow> False)"

section \<open>The acknowledgement tracker of \<open>fi/fault_injection.py\<close>\<close>

text \<open>
  \<open>_AckTracker\<close> holds a flag \<open>_pending\<close> and a \<open>threading.Event\<close>, here the flag
  \<open>event\<close>. Every method body runs under the tracker's lock, so each call is one
  atomic step on the record.
\<close>

record AckTracker =
  pending :: bool
  event :: bool

definition AckTracker_init :: AckTracker where
  "AckTracker_init = \<lparr>pending = False, event = False\<rparr>"

definition start :: "AckTracker \<Rightarrow> AckTracker" where
  "start t = t\<lparr>pending := True, event := False\<rparr>"

definition on_rx :: "AckTracker \<Rightarrow> string \<Rightarrow> bool \<times> AckTracker" where
  "on_rx t line =
     (if \<not> pending t then (False, t)
      else case RE_SC line of
             None \<Rightarrow> (False, t)
           | Some g \<Rightarrow>
               (case int16 g of
                  None \<Rightarrow> (False, t)
                | Some val \<Rightarrow>
                    if val = 0 then (True, t\<lparr>pending := False, event := True\<rparr>)
                    else (False, t)))"

text \<open>
  \<open>wait(timeout_s)\<close> returns \<open>self._event.wait(timeout_s)\<close>: the value of the event
  flag when the wait ends, \<open>False\<close> for a wait that timed out. It writes nothing.
\<close>

definition wait :: "AckTracker \<Rightarrow> bool \<times> AckTracker" where
  "wait t = (event t, t)"

text \<open>
  The RX consumer feeds every received line to \<open>on_rx\<close>, in arrival order; the
  list holds the value each call returned.
\<close>

fun on_rx_all :: "AckTracker \<Rightarrow> string list \<Rightarrow> bool list \<times> AckTracker" where
  "on_rx_all t [] = ([], t)"
| "on_rx_all t (l # ls) =
     (let (r, t') = on_rx t l; (rs, t'') = on_rx_all t' ls in (r # rs, t''))"

text \<open>A line is a status code \<open>00\<close> (resp. \<open>10\<close>) when \<open>_RE_SC\<close> matches with that value.\<close>

definition is_sc00 :: "string \<Rightarrow> bool" where
  "is_sc00 line = (case RE_SC line of None \<Rightarrow> False | Some g \<Rightarrow> int16 g = Some 0)"

definition is_sc10 :: "string \<Rightarrow> bool" where
  "is_sc10 line = (case RE_SC line of None \<Rightarrow> False | Some g \<Rightarrow> int16 g = Some 16)"

text \<open>
  \<open>_parse_inject_ack\<close> of \<open>fi/core/injector.py\<close>: three flags collected over the
  lines, whatever their order.
\<close>

fun parse_inject_ack_loop :: "bool \<times> bool \<times> bool \<Rightarrow> string list \<Rightarrow> bool \<times> bool \<times> bool" where
  "parse_inject_ack_loop acc [] = acc"
| "parse_inject_ack_loop (echo, sc10, sc00) (l # ls) =
     (let echo' = (if RE_ECHO_N l then True else echo)
      in case RE_SC l of
           None \<Rightarrow> parse_inject_ack_loop (echo', sc10, sc00) ls
         | Some g \<Rightarrow>
             (case int16 g of
                None \<Rightarrow> parse_inject_ack_loop (echo', sc10, sc00) ls
              | Some val \<Rightarrow>
                  if val = 16 then parse_inject_ack_loop (echo', True, sc00) ls
                  else if val = 0 then parse_inject_ack_loop (echo', sc10, True) ls
                  else parse_inject_ack_loop (echo', sc10, sc00) ls))"

definition parse_inject_ack :: "string list \<Rightarrow> bool \<times> bool \<times> bool" where
  "parse_inject_ack lines = parse_inject_ack_loop (False, False, False) lines"

section \<open>End-condition messages\<close>

text \<open>\<open>dict.get(key, default)\<close> on a dictionary literal, given as its list of items.\<close>

definition dict_get :: "('k \<times> 'v) list \<Rightarrow> 'k \<Rightarrow> 'v \<Rightarrow> 'v" where
  "dict_get d k dflt = (case map_of d k of Some v \<Rightarrow> v | None \<Rightarrow> dflt)"

text \<open>\<open>_END_MESSAGES\<close> and \<open>Profile.end_condition_prompt\<close> of \<open>fi/area/address_list.py\<close>.\<close>

definition address_list_END_MESSAGES :: "(string \<times> string) list" where
  "address_list_END_MESSAGES = [(''exhausted'', ''Address list exhausted.'')]"

definition address_list_end_condition_prompt :: "string \<Rightarrow> string" where
  "address_list_end_condition_prompt reason =
     dict_get address_list_END_MESSAGES (lower (strip reason)) ''''"

text \<open>\<open>_END_MESSAGES\<close> and \<open>Profile.end_condition_prompt\<close> of \<open>fi/time/uniform.py\<close>.\<close>

definition uniform_END_MESSAGES :: "(string \<times> string) list" where
  "uniform_END_MESSAGES =
     [(''duration_elapsed'', ''Duration limit reached.''),
      (''max_reached'', ''Maximum shots limit reached.'')]"

definition uniform_end_condition_prompt :: "string \<Rightarrow> string" where
  "uniform_end_condition_prompt reason =
     dict_get uniform_END_MESSAGES (lower (strip reason)) ''''"

section \<open>The address-list area profile of \<open>fi/area/address_list.py\<close>\<close>

text \<open>
  What the profile takes from outside the repository is gathered in a record: the
  files that exist, each as the list of raw lines that iterating over the open file
  yields; the integer parsers \<open>int(v)\<close> and \<open>int(s, 0)\<close> (\<open>None\<close> when they raise); and
  the generators of the \<open>random\<close> module. A generator is the function that gives, for
  the n-th call of \<open>_randbelow\<close> and its bound, the number drawn.
  \<open>random.Random(seed)\<close> is determined by an integer seed; \<open>random.Random(None)\<close> is
  seeded from the entropy of the operating system, which differs from run to run.
\<close>

type_synonym rng = "nat \<Rightarrow> nat \<Rightarrow> nat"

record runtime =
  files :: "string \<rightharpoonup> string list"
  py_int :: "string \<Rightarrow> int option"
  py_int_base0 :: "string \<Rightarrow> int option"
  Random_seeded :: "int \<Rightarrow> rng"
  Random_entropy :: rng

datatype error =
    PathRequired
  | FileNotFound string
  | InvalidLFA nat string
  | ModeRequired
  | IndexError

type_synonym kwargs = "(string \<times> string) list"

text \<open>
  \<open>_norm_keys\<close>: keys stripped and lowercased; when two keys of the dictionary
  become equal, the later item wins.
\<close>

definition norm_keys :: "kwargs \<Rightarrow> (string \<rightharpoonup> string)" where
  "norm_keys d = map_of (rev (map (\<lambda>(k, v). (lower (strip k), v)) d))"

text \<open>\<open>_coerce_int(v, None)\<close> on a keyword value (a string, or absent).\<close>

definition coerce_int :: "runtime \<Rightarrow> string option \<Rightarrow> int option" where
  "coerce_int rt v =
     (case v of
        None \<Rightarrow> None
      | Some s \<Rightarrow>
          (case py_int rt s of
             Some n \<Rightarrow> Some n
           | None \<Rightarrow> py_int_base0 rt (strip s)))"

text \<open>\<open>load_addresses_file\<close> of \<open>fi/area/base.py\<close>, on the raw lines of the file.\<close>

fun load_addresses_file :: "string list \<Rightarrow> string list" where
  "load_addresses_file [] = []"
| "load_addresses_file (raw # raws) =
     (let s = strip raw
      in if s = [] \<or> take 1 s = ''#'' then load_addresses_file raws
         else s # load_addresses_file raws)"

text \<open>\<open>_HEX10_RE = re.compile(r'^[0-9A-Fa-f]{10}$')\<close>, applied with \<open>match\<close>.\<close>

definition HEX10_RE :: "string \<Rightarrow> bool" where
  "HEX10_RE s = (10 \<le> length s \<and> list_all is_hex (take 10 s) \<and> at_dollar (drop 10 s))"

text \<open>
  The validation loop of \<open>Profile.__init__\<close>; \<open>i\<close> is the index that
  \<open>enumerate(raw_addrs, start=1)\<close> gives to the line.
\<close>

fun validate :: "nat \<Rightarrow> string list \<Rightarrow> error + string list" where
  "validate i [] = Inr []"
| "validate i (line # lines) =
     (let s = strip line
      in if \<not> HEX10_RE s then Inl (InvalidLFA i line)
         else (case validate (Suc i) lines of
                 Inl e \<Rightarrow> Inl e
               | Inr addrs \<Rightarrow> Inr (upper s # addrs)))"

text \<open>
  \<open>random.Random.shuffle\<close>: for \<open>i\<close> from \<open>len(x) - 1\<close> down to 1, draw
  \<open>j = randbelow(i + 1)\<close> and exchange \<open>x[i]\<close> and \<open>x[j]\<close>; \<open>c\<close> counts the draws made.
  An index outside the list raises \<open>IndexError\<close>.
\<close>

fun shuffle_loop :: "rng \<Rightarrow> nat \<Rightarrow> nat \<Rightarrow> 'a list \<Rightarrow> error + 'a list" where
  "shuffle_loop g c 0 x = Inr x"
| "shuffle_loop g c (Suc i') x =
     (let i = Suc i'; j = g c (i + 1)
      in if i < length x \<and> j < length x
         then shuffle_loop g (Suc c) i' (x[i := x ! j, j := x ! i])
         else Inl IndexError)"

definition shuffle :: "rng \<Rightarrow> 'a list \<Rightarrow> error + 'a list" where
  "shuffle g x = shuffle_loop g 0 (length x - 1) x"

text \<open>\<open>apply_ordering\<close> of \<open>fi/area/base.py\<close>.\<close>

definition apply_ordering :: "runtime \<Rightarrow> string list \<Rightarrow> string \<Rightarrow> int option \<Rightarrow> error + string list" where
  "apply_ordering rt addresses order seed =
     (let order' = lower (strip (if order = [] then ''sequential'' else order))
      in if order' = ''shuffle''
         then shuffle (case seed of Some n \<Rightarrow> Random_seeded rt n | None \<Rightarrow> Random_entropy rt)
                addresses
         else Inr addresses)"

text \<open>
  The mode is taken from \<open>mode\<close>, then from the legacy key \<open>order\<close>; a value that is
  none of the three accepted words is passed over.
\<close>

fun canonical_mode :: "string option list \<Rightarrow> string option" where
  "canonical_mode [] = None"
| "canonical_mode (None # cs) = canonical_mode cs"
| "canonical_mode (Some candidate # cs) =
     (let s = lower (strip candidate)
      in if s = ''sequential'' \<or> s = ''random'' then Some s
         else if s = ''shuffle'' then Some ''random''
         else canonical_mode cs)"

record Profile =
  addrs :: "string list"
  idx :: nat
  apath :: string
  amode :: string
  aseed :: "int option"

text \<open>\<open>kw.pop("path", kw.pop("file", None))\<close> and the like.\<close>

definition kw_first :: "(string \<rightharpoonup> string) \<Rightarrow> string \<Rightarrow> string \<Rightarrow> string option" where
  "kw_first kw k1 k2 = (case kw k1 of Some v \<Rightarrow> Some v | None \<Rightarrow> kw k2)"

definition Profile_init :: "runtime \<Rightarrow> kwargs \<Rightarrow> error + Profile" where
  "Profile_init rt kwargs =
     (let kw = norm_keys kwargs
      in case kw_first kw ''path'' ''file'' of
           None \<Rightarrow> Inl PathRequired
         | Some p \<Rightarrow>
             if p = [] then Inl PathRequired
             else (case files rt p of
                     None \<Rightarrow> Inl (FileNotFound p)
                   | Some raws \<Rightarrow>
                       (case validate 1 (load_addresses_file raws) of
                          Inl e \<Rightarrow> Inl e
                        | Inr as \<Rightarrow>
                            (case canonical_mode [kw ''mode'', kw ''order''] of
                               None \<Rightarrow> Inl ModeRequired
                             | Some m \<Rightarrow>
                                 (let sd = coerce_int rt (kw_first kw ''seed'' ''global_seed'');
                                      base_order = (if m = ''random'' then ''shuffle''
                                                    else ''sequential'')
                                  in case apply_ordering rt as base_order sd of
                                       Inl e \<Rightarrow> Inl e
                                     | Inr ordered \<Rightarrow>
                                         Inr \<lparr>addrs = ordered, idx = 0, apath = p,
                                              amode = m, aseed = sd\<rparr>)))))"

definition next_address :: "Profile \<Rightarrow> string option \<times> Profile" where
  "next_address p =
     (if length (addrs p) \<le> idx p then (None, p)
      else (Some (addrs p ! idx p), p\<lparr>idx := idx p + 1\<rparr>))"

definition reset :: "Profile \<Rightarrow> Profile" where
  "reset p = p\<lparr>idx := 0\<rparr>"

text \<open>
  The addresses that successive calls of \<open>next_address\<close> serve, up to the first
  \<open>None\<close> (at most \<open>n\<close> calls).
\<close>

fun served :: "nat \<Rightarrow> Profile \<Rightarrow> string list" where
  "served 0 p = []"
| "served (Suc n) p =
     (case next_address p of
        (None, _) \<Rightarrow> []
      | (Some a, p') \<Rightarrow> a # served n p')"

text \<open>A valid LFA: exactly ten characters, each a digit or a capital \<open>A\<close> to \<open>F\<close>.\<close>

definition is_LFA :: "string \<Rightarrow> bool" where
  "is_LFA a = (length a = 10 \<and> list_all (\<lambda>c. c \<in> set ''0123456789ABCDEF'') a)"

section \<open>Rate capping in \<open>fi/fault_injection.py\<close>\<close>

text \<open>
  Python floats are modelled as real numbers: the model follows the comparisons and
  the formulas of the code and leaves rounding aside. \<open>float(s)\<close> and the format
  \<open>{x:.12g}\<close> belong to the Python runtime and are parameters (\<open>py_float\<close> gives
  \<open>None\<close> when \<open>float\<close> raises). The module \<open>fi/settings.py\<close> is read with
  \<open>getattr(settings, name, default)\<close>: a field is \<open>None\<close> when the attribute is missing.
\<close>

record pyfloat =
  py_float :: "string \<Rightarrow> real option"
  format_12g :: "real \<Rightarrow> string"

record settings =
  SEM_ICAP_FMAX_HZ :: "real option"
  SEM_FREQ_HZ :: "real option"
  SEM_INJECT_LATENCY_US_AT_FMAX :: "real option"
  INJECTION_RATE_SAFETY_DERATE :: "real option"
  INJECTION_RATE_UART_CAP_HZ :: "real option"

datatype arith_error = ZeroDivisionError

definition getattr :: "real option \<Rightarrow> real \<Rightarrow> real" where
  "getattr v dflt = (case v of Some x \<Rightarrow> x | None \<Rightarrow> dflt)"

definition compute_platform_max_rate_hz :: "settings \<Rightarrow> arith_error + real" where
  "compute_platform_max_rate_hz st =
     (let icap_fmax = getattr (SEM_ICAP_FMAX_HZ st) 200000000;
          sem_clk = getattr (SEM_FREQ_HZ st) 100000000;
          lat_us = getattr (SEM_INJECT_LATENCY_US_AT_FMAX st) 50;
          derate = getattr (INJECTION_RATE_SAFETY_DERATE st) 1;
          uart_cap = getattr (INJECTION_RATE_UART_CAP_HZ st) 0;
          lat_s_at_fmax = max (1 / 1000000000) (lat_us / 1000000);
          scale = icap_fmax / max 1 sem_clk;
          lat_actual_s = lat_s_at_fmax * scale
      in if lat_actual_s = 0 then Inl ZeroDivisionError
         else (let max_rate = (1 / lat_actual_s) * max 0 (min 1 derate);
                   max_rate' = (if uart_cap > 0 then min max_rate uart_cap else max_rate)
               in Inr (max 0 max_rate')))"

text \<open>
  A \<open>Dict[str, str]\<close> is the list of its items, in insertion order, with distinct
  keys; assigning to a key replaces the value in place or appends a new item.
\<close>

fun dict_set :: "'k \<Rightarrow> 'v \<Rightarrow> ('k \<times> 'v) list \<Rightarrow> ('k \<times> 'v) list" where
  "dict_set k v [] = [(k, v)]"
| "dict_set k v ((k', v') # d) = (if k' = k then (k, v) # d else (k', v') # dict_set k v d)"

definition resolve_requested_rate_hz :: "pyfloat \<Rightarrow> (string \<times> string) list \<Rightarrow> real option \<times> string" where
  "resolve_requested_rate_hz pf time_kwargs =
     (case (case map_of time_kwargs ''rate_hz'' of
              Some v \<Rightarrow> py_float pf v
            | None \<Rightarrow> None) of
        Some r \<Rightarrow> (Some r, ''rate_hz'')
      | None \<Rightarrow>
          (case (case map_of time_kwargs ''period_s'' of
                   Some v \<Rightarrow> py_float pf v
                 | None \<Rightarrow> None) of
             Some p \<Rightarrow> if p > 0 then (Some (1 / p), ''period_s'') else (None, ''none'')
           | None \<Rightarrow> (None, ''none'')))"

text \<open>
  The capping message interpolates four numbers: the requested rate, the cap, the
  effective rate and the effective period.
\<close>

datatype cap_info = CapInfo real real real real

definition reconcile_and_cap_time_kwargs ::
  "pyfloat \<Rightarrow> settings \<Rightarrow> (string \<times> string) list \<Rightarrow>
   arith_error + ((string \<times> string) list \<times> real option \<times> real option \<times> cap_info option)" where
  "reconcile_and_cap_time_kwargs pf st time_kwargs =
     (let req_rate_hz = fst (resolve_requested_rate_hz pf time_kwargs)
      in case compute_platform_max_rate_hz st of
           Inl e \<Rightarrow> Inl e
         | Inr cap_rate_hz \<Rightarrow>
             (case req_rate_hz of
                None \<Rightarrow> Inr (time_kwargs, None, Some cap_rate_hz, None)
              | Some req \<Rightarrow>
                  (let eff_rate = (if cap_rate_hz > 0 then min req cap_rate_hz else req);
                       cap_info_msg =
                         (if cap_rate_hz > 0 \<and> req > cap_rate_hz
                          then Some (CapInfo req cap_rate_hz eff_rate
                                       (if eff_rate > 0 then 1 / eff_rate else 0))
                          else None);
                       new_kwargs =
                         (if eff_rate > 0
                          then dict_set ''period_s'' (format_12g pf (1 / eff_rate))
                                 (dict_set ''rate_hz'' (format_12g pf eff_rate) time_kwargs)
                          else time_kwargs)
                   in Inr (new_kwargs, Some req, Some cap_rate_hz, cap_info_msg))))"

text \<open>
  The effective rate that \<open>_reconcile_and_cap_time_kwargs\<close> computes, as the local
  variable \<open>eff_rate\<close> holds it.
\<close>

definition eff_rate_of :: "real \<Rightarrow> real \<Rightarrow> real" where
  "eff_rate_of req cap = (if cap > 0 then min req cap else req)"

section \<open>The uniform time profile of \<open>fi/time/uniform.py\<close>\<close>

text \<open>
  The scheduler runs in its own thread. What it observes of the rest of the system is
  given by four sequences: the value that the n-th call of \<open>time.perf_counter()\<close>
  returns, the answers to the n-th call of \<open>stop_evt.is_set()\<close> and of
  \<open>pause_evt.is_set()\<close>, and whether the n-th write to the transport fails.
  \<open>time.sleep\<close> changes nothing in the model: the passing of time shows in the
  clock readings. Times are real numbers (see the rate capping). The event logger
  only appends to a list in memory, and its calls do not raise.
\<close>

record env =
  perf_counter :: "nat \<Rightarrow> real"
  stop_is_set :: "nat \<Rightarrow> bool"
  pause_is_set :: "nat \<Rightarrow> bool"
  write_fails :: "nat \<Rightarrow> bool"

text \<open>
  The calls the scheduler and the watcher make on their collaborators, in order.
  \<open>Write\<close> is a line written to the transport; \<open>Read\<close> is a read from the transport
  (\<open>read_lines\<close>, \<open>read_until_prompt\<close>).
\<close>

datatype event =
    LogTx string
  | TxEcho string
  | Write string
  | Read
  | LogInfo string
  | AckStart
  | AckWait real
  | LogProfArea string
  | LogProfTime string
  | Info string

text \<open>The configuration that \<open>Profile.__init__\<close> and \<open>ProfileBase.__init__\<close> store.\<close>

record Uniform =
  period :: real
  duration_s :: "real option"
  ack :: bool
  ack_timeout_s :: real
  max_shots :: "int option"
  startup_delay_s :: real
  tx_echo_callable :: bool
  has_ack_tracker :: bool

text \<open>
  The period as \<open>Profile.__init__\<close> resolves it from the period and rate keywords
  after \<open>_coerce_float\<close> (\<open>None\<close>: the keyword is missing or does not parse).
\<close>

definition uniform_period :: "real option \<Rightarrow> real option \<Rightarrow> real" where
  "uniform_period period_val rate_val =
     (let period_s = (case period_val of None \<Rightarrow> - 1 | Some x \<Rightarrow> x);
          rate_hz = (case rate_val of None \<Rightarrow> 1 | Some x \<Rightarrow> x)
      in if period_s \<ge> 0 then period_s
         else if rate_hz > 0 then 1 / rate_hz else 0)"

text \<open>
  The state of a run: the area profile (whose cursor the address iterator moves), the
  number of calls made so far on the clock, on the two events and on the transport,
  the fields
  \<open>_first_shot\<close> and \<open>finished_reason\<close>, the calls made on the collaborators, and the
  values of \<open>next_deadline\<close> computed so far.
\<close>

record sched =
  area :: Profile
  n_clock :: nat
  n_stop :: nat
  n_pause :: nat
  n_write :: nat
  first_shot :: bool
  finished_reason :: "string option"
  trace :: "event list"
  deadlines :: "real list"

definition sched_init :: "Profile \<Rightarrow> sched" where
  "sched_init a =
     \<lparr>area = a, n_clock = 0, n_stop = 0, n_pause = 0, n_write = 0, first_shot = True,
      finished_reason = None, trace = [], deadlines = []\<rparr>"

definition now :: "env \<Rightarrow> sched \<Rightarrow> real \<times> sched" where
  "now e s = (perf_counter e (n_clock s), s\<lparr>n_clock := Suc (n_clock s)\<rparr>)"

definition poll_stop :: "env \<Rightarrow> sched \<Rightarrow> bool \<times> sched" where
  "poll_stop e s = (stop_is_set e (n_stop s), s\<lparr>n_stop := Suc (n_stop s)\<rparr>)"

definition poll_pause :: "env \<Rightarrow> sched \<Rightarrow> bool \<times> sched" where
  "poll_pause e s = (pause_is_set e (n_pause s), s\<lparr>n_pause := Suc (n_pause s)\<rparr>)"

definition emit :: "event list \<Rightarrow> sched \<Rightarrow> sched" where
  "emit evs s = s\<lparr>trace := trace s @ evs\<rparr>"

text \<open>
  Modelled from the spec: \<open>SemProtocol.inject_lfa\<close> of \<open>fi/semio/protocol.py\<close>, which
  is not among the sources. The spec: \<open>inject_lfa(addr)\<close> sends \<open>N <addr>\<close> with no
  reply wait (fire-and-forget), and a write fails with \<open>WriteError\<close> on a broken
  channel. \<open>Inl s\<close> is an exception raised in the state \<open>s\<close>.
\<close>

definition inject_lfa :: "env \<Rightarrow> string \<Rightarrow> sched \<Rightarrow> sched + sched" where
  "inject_lfa e addr s =
     (let fails = write_fails e (n_write s);
          s = s\<lparr>n_write := Suc (n_write s)\<rparr>
      in if fails then Inl s else Inr (emit [Write (''N '' @ addr)] s))"

text \<open>
  \<open>ProfileBase._inject(addr, use_ack=..., ack_timeout_s=...)\<close> of \<open>fi/time/base.py\<close>;
  \<open>Profile.run\<close> calls it with \<open>use_ack=False\<close> and the default timeout of 1.5 s.
\<close>

definition inject :: "Uniform \<Rightarrow> env \<Rightarrow> string \<Rightarrow> bool \<Rightarrow> real \<Rightarrow> sched \<Rightarrow> sched + sched" where
  "inject cfg e addr use_ack timeout s =
     (let msg = ''N '' @ addr;
          s = emit [LogTx msg] s;
          s = (if tx_echo_callable cfg then emit [TxEcho msg] s else s);
          s = (if use_ack \<and> has_ack_tracker cfg then emit [AckStart] s else s)
      in case inject_lfa e addr s of
           Inl s \<Rightarrow> Inl s
         | Inr s \<Rightarrow>
             Inr (if use_ack \<and> has_ack_tracker cfg then emit [AckWait timeout] s else s))"

definition maybe_first_shot_delay :: "sched \<Rightarrow> sched" where
  "maybe_first_shot_delay s = s\<lparr>first_shot := False\<rparr>"

definition log_profile_end :: "string \<Rightarrow> sched \<Rightarrow> sched" where
  "log_profile_end reason s =
     (let msg = uniform_end_condition_prompt reason
      in emit [LogInfo (''Time profile [UNIFORM] finished.''
                        @ (if msg \<noteq> [] then '' '' @ msg else []))] s)"

definition exit_note :: "sched \<Rightarrow> sched" where
  "exit_note s = emit [LogInfo ''Exiting. Creating log file.''] s"

definition spin_threshold_s :: real where
  "spin_threshold_s = 2 / 1000"

text \<open>
  The loops that wait on the clock or on an event may go on for ever: they take fuel,
  one unit for each turn, and \<open>None\<close> is a loop that has not ended when the fuel is
  spent. First the spin \<open>while self._now() < t_deadline: pass\<close>, then
  \<open>_sleep_until\<close>.
\<close>

fun spin :: "nat \<Rightarrow> env \<Rightarrow> real \<Rightarrow> sched \<Rightarrow> sched option" where
  "spin 0 e t_deadline s = None"
| "spin (Suc f) e t_deadline s =
     (let (t, s) = now e s
      in if t < t_deadline then spin f e t_deadline s else Some s)"

fun sleep_until :: "nat \<Rightarrow> env \<Rightarrow> real \<Rightarrow> sched \<Rightarrow> sched option" where
  "sleep_until 0 e t_deadline s = None"
| "sleep_until (Suc f) e t_deadline s =
     (let (t, s) = now e s;
          remaining = t_deadline - t
      in if remaining \<le> 0 then Some s
         else if remaining > spin_threshold_s then sleep_until f e t_deadline s
         else spin f e t_deadline s)"

text \<open>
  \<open>while self.pause_evt.is_set() and not self.stop_evt.is_set(): time.sleep(0.05)\<close>;
  the stop event is asked only when the pause event is set.
\<close>

fun pause_loop :: "nat \<Rightarrow> env \<Rightarrow> sched \<Rightarrow> sched option" where
  "pause_loop 0 e s = None"
| "pause_loop (Suc f) e s =
     (let (paused, s) = poll_pause e s
      in if paused
         then (let (stopped, s) = poll_stop e s
               in if \<not> stopped then pause_loop f e s else Some s)
         else Some s)"

text \<open>
  Whether a shot is gated on the acknowledgement:
  \<open>self.ack and self.ack_timeout_s > 0.0 and self.ack_tracker is not None\<close>.
\<close>

definition gated :: "Uniform \<Rightarrow> bool" where
  "gated cfg = (ack cfg \<and> ack_timeout_s cfg > 0 \<and> has_ack_tracker cfg)"

text \<open>
  The loop \<open>for addr in addr_it\<close> of \<open>Profile.run\<close>. The iterator is the generator
  \<open>iter_addresses\<close> of the area profile: it ends when the cursor has reached the end
  of the list and otherwise yields \<open>next_address()\<close>. A \<open>break\<close> and the end of the
  loop lead to the exit note; the two \<open>return\<close> statements do not. An exception
  raised by the write is caught by the handler \<open>except Exception\<close> of \<open>run\<close>, which
  logs the exit note and returns.
\<close>

fun run_loop :: "nat \<Rightarrow> Uniform \<Rightarrow> env \<Rightarrow> real \<Rightarrow> nat \<Rightarrow> nat \<Rightarrow> sched \<Rightarrow> sched option" where
  "run_loop 0 cfg e t0 shots k s = None"
| "run_loop (Suc f) cfg e t0 shots k s =
     (if length (addrs (area s)) \<le> idx (area s) then Some (exit_note s)
      else
        let (a, area') = next_address (area s);
            addr = (case a of Some x \<Rightarrow> x | None \<Rightarrow> ''None'');
            s = s\<lparr>area := area'\<rparr>;
            (stop1, s) = poll_stop e s
        in if stop1 then Some (exit_note s)
           else
             case pause_loop f e s of
               None \<Rightarrow> None
             | Some s \<Rightarrow>
                 let (stop2, s) = poll_stop e s
                 in if stop2 then Some (exit_note s)
                    else
                      let (elapsed, s) =
                            (case duration_s cfg of
                               None \<Rightarrow> (False, s)
                             | Some d \<Rightarrow> (let (t, s) = now e s in (t - t0 \<ge> d, s)))
                      in if elapsed
                         then Some (log_profile_end ''duration_elapsed''
                                      (s\<lparr>finished_reason := Some ''duration_elapsed''\<rparr>))
                         else if (case max_shots cfg of None \<Rightarrow> False | Some m \<Rightarrow> m \<le> int shots)
                         then Some (log_profile_end ''max_reached''
                                      (s\<lparr>finished_reason := Some ''max_reached''\<rparr>))
                         else
                           let s = maybe_first_shot_delay s;
                               k = k + 1
                           in case (if gated cfg
                                    then (case inject cfg e addr False (3 / 2) (emit [AckStart] s) of
                                            Inl s \<Rightarrow> Inl s
                                          | Inr s \<Rightarrow>
                                              (let s = emit [AckWait (ack_timeout_s cfg)] s;
                                                   (t, s) = now e s
                                               in Inr (if period cfg > 0 then t + period cfg else t, s)))
                                    else (case inject cfg e addr False (3 / 2) s of
                                            Inl s \<Rightarrow> Inl s
                                          | Inr s \<Rightarrow>
                                              Inr (if period cfg > 0
                                                   then (t0 + real k * period cfg, s)
                                                   else now e s))) of
                                Inl s \<Rightarrow> Some (exit_note s)
                              | Inr (next_deadline, s) \<Rightarrow>
                                  let s = s\<lparr>deadlines := deadlines s @ [next_deadline]\<rparr>;
                                      shots = shots + 1
                                  in if period cfg > 0
                                     then (case sleep_until f e next_deadline s of
                                             None \<Rightarrow> None
                                           | Some s \<Rightarrow> run_loop f cfg e t0 shots k s)
                                     else run_loop f cfg e t0 shots k s)"

text \<open>\<open>Profile.run\<close>: the origin \<open>t0\<close> is read once, before the loop.\<close>

definition run :: "nat \<Rightarrow> Uniform \<Rightarrow> env \<Rightarrow> sched \<Rightarrow> sched option" where
  "run fuel cfg e s = (let (t0, s) = now e s in run_loop fuel cfg e t0 0 0 s)"

text \<open>The lines written to the transport and the number of reads from it.\<close>

fun writes :: "event list \<Rightarrow> string list" where
  "writes [] = []"
| "writes (Write l # evs) = l # writes evs"
| "writes (_ # evs) = writes evs"

fun rx_reads :: "event list \<Rightarrow> nat" where
  "rx_reads [] = 0"
| "rx_reads (Read # evs) = Suc (rx_reads evs)"
| "rx_reads (_ # evs) = rx_reads evs"

text \<open>
  What \<open>_profile_watcher\<close> of \<open>fi/fault_injection.py\<close> logs and prints once the
  time profile has ended, for an address-list area and a uniform time profile:
  \<open>reason\<close> is the profile's \<open>finished_reason\<close>.
\<close>

definition profile_watcher_report :: "string option \<Rightarrow> event list" where
  "profile_watcher_report reason =
     (if reason = Some ''area_exhausted''
      then (let msg = address_list_end_condition_prompt ''exhausted'';
                suffix = (if strip msg \<noteq> [] then '' '' @ strip msg else []);
                suffix = (if suffix = [] then '' (address list exhausted)'' else suffix)
            in [LogProfArea ''finished'',
                Info (''Area profile [ADDRESS_LIST] finished.'' @ suffix)])
      else (let truthy = (case reason of None \<Rightarrow> False | Some r \<Rightarrow> r \<noteq> []);
                msg = (if truthy then uniform_end_condition_prompt (the reason) else []);
                suffix = (if strip msg \<noteq> [] then '' '' @ strip msg else [])
            in [LogProfTime (if truthy then ''finished ('' @ the reason @ '')'' else ''finished''),
                Info (''Time profile [UNIFORM] finished.'' @ suffix)]))"

text \<open>
  The conditions on the surroundings under which a run is followed to its end: the
  stop and pause events are never set, no write fails, and the clock passes every
  instant.
\<close>

definition never_stopped :: "env \<Rightarrow> bool" where
  "never_stopped e = (\<forall>n. \<not> stop_is_set e n)"

definition never_paused :: "env \<Rightarrow> bool" where
  "never_paused e = (\<forall>n. \<not> pause_is_set e n)"

definition never_fails :: "env \<Rightarrow> bool" where
  "never_fails e = (\<forall>n. \<not> write_fails e n)"

definition clock_advances :: "env \<Rightarrow> bool" where
  "clock_advances e = (\<forall>n d. \<exists>m\<ge>n. d \<le> perf_counter e m)"

text \<open>
  Two states of a run are the same up to the counters when they differ at most in the
  number of calls made on the clock, on the events and on the transport.
\<close>

definition same_run :: "sched \<Rightarrow> sched \<Rightarrow> bool" where
  "same_run s s' =
     (area s' = area s \<and> first_shot s' = first_shot s
      \<and> finished_reason s' = finished_reason s \<and> trace s' = trace s
      \<and> deadlines s' = deadlines s)"

text \<open>
  With no stop, pause or duration in the way, a loop that has fired \<open>shots\<close> shots and
  has \<open>n\<close> addresses left fires \<open>shots_to_fire\<close> more; the cap is hit when it is reached
  while an address is left.
\<close>

definition shots_to_fire :: "Uniform \<Rightarrow> nat \<Rightarrow> nat \<Rightarrow> nat" where
  "shots_to_fire cfg shots n =
     (case max_shots cfg of None \<Rightarrow> n | Some m \<Rightarrow> min n (nat (m - int shots)))"

definition cap_hit :: "Uniform \<Rightarrow> nat \<Rightarrow> nat \<Rightarrow> bool" where
  "cap_hit cfg shots n =
     (case max_shots cfg of None \<Rightarrow> False | Some m \<Rightarrow> 0 < n \<and> m < int shots + int n)"

section \<open>Concrete inputs\<close>

text \<open>
  A small runtime on which the theorems below are exercised: one well-formed address
  file, one file with a malformed line, decimal seeds \<open>7\<close> and \<open>8\<close>, and two simple
  generators.
\<close>

definition example_runtime :: runtime where
  "example_runtime =
     \<lparr>files = [''lfa.txt'' \<mapsto> [''# targets'' @ [newline], ''00000000ab'' @ [newline], [newline],
                               ''  0123456789  '' @ [newline], ''FFFFFFFFFF''],
               ''bad.txt'' \<mapsto> [''00000000AB'' @ [newline], ''0123'' @ [newline]]],
      py_int = (\<lambda>s. if s = ''7'' then Some 7 else if s = ''8'' then Some 8 else None),
      py_int_base0 = (\<lambda>s. None),
      Random_seeded = (\<lambda>s c n. (nat s + c) mod n),
      Random_entropy = (\<lambda>c n. 0)\<rparr>"

definition example_profile :: Profile where
  "example_profile =
     \<lparr>addrs = [''00000000AB'', ''0123456789'', ''FFFFFFFFFF''], idx = 0,
      apath = ''lfa.txt'', amode = ''sequential'', aseed = None\<rparr>"

text \<open>
  Settings with the safety derate at zero, and the two float conversions on the few
  values used: \<open>float('5')\<close> is \<open>5.0\<close>, \<open>f"{5.0:.12g}"\<close> is \<open>5\<close>,
  \<open>f"{0.2:.12g}"\<close> is \<open>0.2\<close>, \<open>f"{1.0/3.0:.12g}"\<close> is \<open>0.333333333333\<close>, and
  \<open>float('abc')\<close> raises.
\<close>

definition example_settings :: settings where
  "example_settings =
     \<lparr>SEM_ICAP_FMAX_HZ = None, SEM_FREQ_HZ = None, SEM_INJECT_LATENCY_US_AT_FMAX = None,
      INJECTION_RATE_SAFETY_DERATE = Some 0, INJECTION_RATE_UART_CAP_HZ = None\<rparr>"

definition default_settings :: settings where
  "default_settings =
     \<lparr>SEM_ICAP_FMAX_HZ = None, SEM_FREQ_HZ = None, SEM_INJECT_LATENCY_US_AT_FMAX = None,
      INJECTION_RATE_SAFETY_DERATE = None, INJECTION_RATE_UART_CAP_HZ = None\<rparr>"

definition example_pyfloat :: pyfloat where
  "example_pyfloat =
     \<lparr>py_float = (\<lambda>s. if s = ''5'' then Some 5 else if s = ''20000'' then Some 20000
                       else if s = ''3'' then Some 3 else if s = ''0'' then Some 0
                       else if s = ''0.333333333333'' then Some (333333333333 / 1000000000000)
                       else None),
      format_12g = (\<lambda>x. if x = 5 then ''5'' else if x = 1 / 5 then ''0.2''
                         else if x = 10000 then ''10000'' else if x = 1 / 10000 then ''0.0001''
                         else if x = 3 then ''3'' else if x = 1 / 3 then ''0.333333333333''
                         else ''?'')\<rparr>"

text \<open>
  A uniform profile at 10 Hz, with and without a cap of three shots, and surroundings
  in which no event is ever set, no write fails, and each clock reading is 50 ms after
  the one before.
\<close>

definition example_uniform :: Uniform where
  "example_uniform =
     \<lparr>period = uniform_period None (Some 10), duration_s = None, ack = False,
      ack_timeout_s = 3 / 2, max_shots = Some 3, startup_delay_s = 8 / 100,
      tx_echo_callable = False, has_ack_tracker = True\<rparr>"

definition example_env :: env where
  "example_env =
     \<lparr>perf_counter = (\<lambda>n. real n / 20), stop_is_set = (\<lambda>n. False),
      pause_is_set = (\<lambda>n. False), write_fails = (\<lambda>n. False)\<rparr>"

definition example_uniform_uncapped :: Uniform where
  "example_uniform_uncapped = example_uniform\<lparr>max_shots := None\<rparr>"

text \<open>The state in which the example run over the three addresses ends.\<close>

definition example_final :: sched where
  "example_final =
     \<lparr>area = \<lparr>addrs = [''00000000AB'', ''0123456789'', ''FFFFFFFFFF''], idx = 3,
              apath = ''lfa.txt'', amode = ''sequential'', aseed = None\<rparr>,
      n_clock = 7, n_stop = 6, n_pause = 3, n_write = 3, first_shot = False,
      finished_reason = None,
      trace = [LogTx ''N 00000000AB'', Write ''N 00000000AB'',
               LogTx ''N 0123456789'', Write ''N 0123456789'',
               LogTx ''N FFFFFFFFFF'', Write ''N FFFFFFFFFF'',
               LogInfo ''Exiting. Creating log file.''],
      deadlines = [1 / 10, 1 / 5, 3 / 10]\<rparr>"

section \<open>Properties of the acknowledgement tracker\<close>

lemma on_rx_idle: "\<not> pending t \<Longrightarrow> on_rx t l = (False, t)"
  by (simp add: on_rx_def)

lemma on_rx_pending:
  "pending t \<Longrightarrow>
   on_rx t l = (if is_sc00 l then (True, t\<lparr>pending := False, event := True\<rparr>) else (False, t))"
  by (simp add: on_rx_def is_sc00_def split: option.splits)

lemma on_rx_all_Cons:
  "on_rx_all t (l # ls) =
     (fst (on_rx t l) # fst (on_rx_all (snd (on_rx t l)) ls), snd (on_rx_all (snd (on_rx t l)) ls))"
  by (simp add: case_prod_unfold Let_def)

lemma on_rx_all_idle: "\<not> pending t \<Longrightarrow> on_rx_all t ls = (replicate (length ls) False, t)"
  by (induction ls) (simp_all add: on_rx_idle del: on_rx_all.simps(2) add: on_rx_all_Cons)

lemma length_on_rx_all: "length (fst (on_rx_all t ls)) = length ls"
  by (induction ls arbitrary: t) (simp_all del: on_rx_all.simps(2) add: on_rx_all_Cons)

lemma on_rx_all_pending_nth:
  "pending t \<Longrightarrow> i < length ls \<Longrightarrow>
   fst (on_rx_all t ls) ! i = (is_sc00 (ls ! i) \<and> (\<forall>j<i. \<not> is_sc00 (ls ! j)))"
proof (induction ls arbitrary: i)
  case Nil
  then show ?case by simp
next
  case (Cons l ls)
  show ?case
  proof (cases i)
    case 0
    with Cons.prems show ?thesis
      by (simp add: on_rx_pending on_rx_all_Cons del: on_rx_all.simps(2))
  next
    case (Suc k)
    show ?thesis
    proof (cases "is_sc00 l")
      case True
      have "\<not> pending (t\<lparr>pending := False, event := True\<rparr>)" by simp
      then have "on_rx_all (t\<lparr>pending := False, event := True\<rparr>) ls
                   = (replicate (length ls) False, t\<lparr>pending := False, event := True\<rparr>)"
        by (rule on_rx_all_idle)
      with True Cons.prems Suc show ?thesis
        by (auto simp add: on_rx_pending on_rx_all_Cons simp del: on_rx_all.simps(2))
    next
      case False
      from Cons.prems Suc have k: "k < length ls" by simp
      have "fst (on_rx_all t ls) ! k = (is_sc00 (ls ! k) \<and> (\<forall>j<k. \<not> is_sc00 (ls ! j)))"
        using Cons.IH [OF Cons.prems(1) k] .
      with False Cons.prems Suc show ?thesis
        by (auto simp add: on_rx_pending on_rx_all_Cons less_Suc_eq_0_disj simp del: on_rx_all.simps(2))
    qed
  qed
qed

lemma on_rx_all_pending_count:
  "pending t \<Longrightarrow>
   count_list (fst (on_rx_all t ls)) True = (if \<exists>l \<in> set ls. is_sc00 l then 1 else 0)"
proof (induction ls)
  case Nil
  then show ?case by simp
next
  case (Cons l ls)
  show ?case
  proof (cases "is_sc00 l")
    case True
    have "\<not> pending (t\<lparr>pending := False, event := True\<rparr>)" by simp
    then have "on_rx_all (t\<lparr>pending := False, event := True\<rparr>) ls
                 = (replicate (length ls) False, t\<lparr>pending := False, event := True\<rparr>)"
      by (rule on_rx_all_idle)
    with True Cons.prems show ?thesis
      by (simp add: on_rx_pending on_rx_all_Cons count_list_0_iff del: on_rx_all.simps(2))
  next
    case False
    with Cons show ?thesis
      by (simp add: on_rx_pending on_rx_all_Cons del: on_rx_all.simps(2))
  qed
qed


lemma on_rx_all_pending_final:
  "pending t \<Longrightarrow> pending (snd (on_rx_all t ls)) = (\<not> (\<exists>l \<in> set ls. is_sc00 l))"
proof (induction ls)
  case Nil
  then show ?case by simp
next
  case (Cons l ls)
  show ?case
  proof (cases "is_sc00 l")
    case True
    have "\<not> pending (t\<lparr>pending := False, event := True\<rparr>)" by simp
    then have "on_rx_all (t\<lparr>pending := False, event := True\<rparr>) ls
                 = (replicate (length ls) False, t\<lparr>pending := False, event := True\<rparr>)"
      by (rule on_rx_all_idle)
    with True Cons.prems show ?thesis
      by (simp add: on_rx_pending on_rx_all_Cons del: on_rx_all.simps(2))
  next
    case False
    with Cons show ?thesis
      by (simp add: on_rx_pending on_rx_all_Cons del: on_rx_all.simps(2))
  qed
qed

lemma is_sc00_SC_00: "is_sc00 ''SC 00''"
  by (simp add: is_sc00_def RE_SC_def is_space_def is_hex_def at_dollar_def int16_def hex_digit_def)

lemma is_sc10_SC_10: "is_sc10 ''SC 10''"
  by (simp add: is_sc10_def RE_SC_def is_space_def is_hex_def at_dollar_def int16_def hex_digit_def)

lemma not_is_sc00_SC_10: "\<not> is_sc00 ''SC 10''"
  by (simp add: is_sc00_def RE_SC_def is_space_def is_hex_def at_dollar_def int16_def hex_digit_def)

lemma RE_ECHO_N_example: "RE_ECHO_N ''I> N C000A098C4''"
  by (simp add: RE_ECHO_N_def is_space_def)

lemma not_is_sc00_echo: "\<not> is_sc00 ''I> N C000A098C4''"
  by (simp add: is_sc00_def RE_SC_def)

lemma parse_inject_ack_any_order:
  "parse_inject_ack [''SC 00'', ''SC 10'', ''I> N C000A098C4''] = (True, True, True)"
  by (simp add: parse_inject_ack_def RE_SC_def RE_ECHO_N_def is_space_def is_hex_def
      at_dollar_def int16_def hex_digit_def)

text \<open>
  Claim C1 as stated fails: a tracker armed by \<open>start()\<close> is resolved by the single
  line \<open>SC 00\<close>, with no injection echo and no \<open>SC 10\<close> before it.
\<close>

theorem C1_bare_sc00_resolves:
  "pending (start AckTracker_init)
   \<and> \<not> list_ex RE_ECHO_N [''SC 00''] \<and> \<not> list_ex is_sc10 [''SC 00'']
   \<and> on_rx_all (start AckTracker_init) [''SC 00''] = ([True], \<lparr>pending = False, event = True\<rparr>)"
  by (simp add: start_def AckTracker_init_def on_rx_def is_sc10_def RE_SC_def RE_ECHO_N_def
      is_space_def is_hex_def at_dollar_def int16_def hex_digit_def)

text \<open>
  Claim C1 (amended): for every sequence of received lines fed to a tracker armed by
  \<open>start()\<close>, the call that resolves the pending acknowledgement is the one for the
  first line matching \<open>^SC\\s+([0-9A-Fa-f]{2})$\<close> with value \<open>00\<close>, and no other call
  does; injection echoes and \<open>SC 10\<close> lines play no part.
\<close>

theorem C1_ack_resolved_by_first_sc00:
  "i < length ls \<Longrightarrow>
   fst (on_rx_all (start t) ls) ! i = (is_sc00 (ls ! i) \<and> (\<forall>j<i. \<not> is_sc00 (ls ! j)))"
proof -
  assume i: "i < length ls"
  have "pending (start t)" by (simp add: start_def)
  then show ?thesis using i by (rule on_rx_all_pending_nth)
qed

theorem C1_ack_resolved_by_first_sc00_witness:
  "(1::nat) < length [''SC 10'', ''SC 00'']
   \<and> fst (on_rx_all (start AckTracker_init) [''SC 10'', ''SC 00'']) ! 1 = True"
  using C1_ack_resolved_by_first_sc00 [of 1 "[''SC 10'', ''SC 00'']" AckTracker_init]
  by (simp add: is_sc00_SC_00 not_is_sc00_SC_10)

text \<open>
  Claim C2: after \<open>start()\<close>, a line sequence containing an injection echo, then
  \<open>SC 10\<close>, then \<open>SC 00\<close> (with any lines around them) makes \<open>on_rx\<close> return
  \<open>True\<close> for exactly one call, and every call after the sequence returns \<open>False\<close>;
  a tracker that was never armed returns \<open>False\<close> for every line, \<open>SC 00\<close> included.
\<close>

theorem C2_tracker_resolves_exactly_once:
  assumes "RE_ECHO_N e" and "is_sc10 s10" and "is_sc00 s00"
  shows "count_list (fst (on_rx_all (start t) (pre @ e # mid @ s10 # mid' @ s00 # post))) True = 1
       \<and> (\<forall>l. fst (on_rx (snd (on_rx_all (start t) (pre @ e # mid @ s10 # mid' @ s00 # post))) l)
                = False)
       \<and> fst (on_rx_all AckTracker_init ls) = replicate (length ls) False
       \<and> fst (on_rx AckTracker_init ''SC 00'') = False"
proof -
  let ?ls = "pre @ e # mid @ s10 # mid' @ s00 # post"
  have p: "pending (start t)" by (simp add: start_def)
  have ex: "\<exists>l \<in> set ?ls. is_sc00 l" using assms(3) by auto
  have c: "count_list (fst (on_rx_all (start t) ?ls)) True = 1"
    using on_rx_all_pending_count [OF p, of ?ls] ex by simp
  have "\<not> pending (snd (on_rx_all (start t) ?ls))"
    using on_rx_all_pending_final [OF p, of ?ls] ex by simp
  then have later: "\<forall>l. fst (on_rx (snd (on_rx_all (start t) ?ls)) l) = False"
    by (simp add: on_rx_idle)
  have i: "\<not> pending AckTracker_init" by (simp add: AckTracker_init_def)
  have "fst (on_rx_all AckTracker_init ls) = replicate (length ls) False"
    using on_rx_all_idle [OF i] by simp
  moreover have "fst (on_rx AckTracker_init ''SC 00'') = False"
    using on_rx_idle [OF i] by simp
  ultimately show ?thesis using c later by simp
qed

theorem C2_tracker_resolves_exactly_once_witness:
  "RE_ECHO_N ''I> N C000A098C4'' \<and> is_sc10 ''SC 10'' \<and> is_sc00 ''SC 00''
   \<and> fst (on_rx_all (start AckTracker_init) [''I> N C000A098C4'', ''SC 10'', ''SC 00'', ''SC 00''])
       = [False, False, True, False]
   \<and> count_list (fst (on_rx_all (start AckTracker_init)
        [''I> N C000A098C4'', ''SC 10'', ''SC 00'', ''SC 00''])) True = 1"
  using C2_tracker_resolves_exactly_once [OF RE_ECHO_N_example is_sc10_SC_10 is_sc00_SC_00,
      of AckTracker_init "[]" "[]" "[]" "[''SC 00'']"]
  by (simp add: RE_ECHO_N_example is_sc10_SC_10 is_sc00_SC_00 on_rx_all_Cons on_rx_pending
      on_rx_idle not_is_sc00_SC_10 not_is_sc00_echo start_def del: on_rx_all.simps(2))

text \<open>
  Claim C8: \<open>wait\<close> leaves the tracker as it is; after a wait that timed out on a
  pending tracker the pending flag is still set and a later \<open>SC 00\<close> line resolves
  it; \<open>start()\<close> sets the pending flag and clears the event of any earlier
  resolution.
\<close>

theorem C8_wait_leaves_tracker_unchanged:
  "snd (wait t) = t
   \<and> (pending t \<and> \<not> fst (wait t) \<longrightarrow>
        pending (snd (wait t))
        \<and> (\<forall>l. is_sc00 l \<longrightarrow>
              on_rx (snd (wait t)) l = (True, t\<lparr>pending := False, event := True\<rparr>)))
   \<and> pending (start t') \<and> \<not> event (start t')"
  by (simp add: wait_def start_def on_rx_pending)

theorem C8_wait_leaves_tracker_unchanged_witness:
  "pending (start AckTracker_init) \<and> \<not> fst (wait (start AckTracker_init))
   \<and> is_sc00 ''SC 00''
   \<and> on_rx (snd (wait (start AckTracker_init))) ''SC 00''
       = (True, \<lparr>pending = False, event = True\<rparr>)
   \<and> \<not> event (start \<lparr>pending = False, event = True\<rparr>)"
  using C8_wait_leaves_tracker_unchanged [of "start AckTracker_init" "\<lparr>pending = False, event = True\<rparr>"]
  by (simp add: is_sc00_SC_00 start_def wait_def AckTracker_init_def)


section \<open>Properties of the address-list profile and of the end messages\<close>

lemma strip_last_not_space: "strip s \<noteq> [] \<Longrightarrow> \<not> is_space (last (strip s))"
proof -
  assume ne: "strip s \<noteq> []"
  let ?r = "dropWhile is_space (rev (dropWhile is_space s))"
  from ne have r: "?r \<noteq> []" by (simp add: strip_def)
  then have "\<not> is_space (hd ?r)" by (rule hd_dropWhile)
  moreover have "last (strip s) = hd ?r" using r by (simp add: strip_def last_rev)
  ultimately show ?thesis by simp
qed

lemma is_space_newline: "is_space newline"
  by (simp add: is_space_def newline_def)

lemma HEX10_RE_strip:
  "HEX10_RE (strip l) = (length (strip l) = 10 \<and> list_all is_hex (strip l))"
proof (cases "strip l = []")
  case True
  then show ?thesis by (simp add: HEX10_RE_def)
next
  case False
  then have nl: "last (strip l) \<noteq> newline"
    using strip_last_not_space [of l] is_space_newline by auto
  have "drop 10 (strip l) \<noteq> [newline]"
  proof
    assume d: "drop 10 (strip l) = [newline]"
    then have "last (drop 10 (strip l)) = newline" by simp
    moreover have "last (drop 10 (strip l)) = last (strip l)"
      using d by (intro last_drop) (cases "10 < length (strip l)"; simp)
    ultimately show False using nl by simp
  qed
  then show ?thesis
    by (auto simp add: HEX10_RE_def at_dollar_def)
qed

lemma upper_char_hex_all:
  "list_all (\<lambda>c. upper_char c \<in> set ''0123456789ABCDEF'') ''0123456789ABCDEFabcdef''"
  by code_simp

lemma upper_char_hex: "is_hex c \<Longrightarrow> upper_char c \<in> set ''0123456789ABCDEF''"
  using upper_char_hex_all unfolding is_hex_def list_all_iff by blast

lemma is_LFA_upper: "length s = 10 \<Longrightarrow> list_all is_hex s \<Longrightarrow> is_LFA (upper s)"
  by (simp add: is_LFA_def upper_def list_all_iff upper_char_hex del: set_simps)

lemma validate_Inr:
  "validate i ls = Inr as \<Longrightarrow> as = map (\<lambda>l. upper (strip l)) ls \<and> list_all HEX10_RE (map strip ls)"
  by (induction ls arbitrary: i as) (auto simp add: Let_def split: if_splits sum.splits)

lemma validate_Inl:
  "l \<in> set ls \<Longrightarrow> \<not> HEX10_RE (strip l) \<Longrightarrow> \<exists>j b. validate i ls = Inl (InvalidLFA j b)"
proof (induction ls arbitrary: i)
  case Nil
  then show ?case by simp
next
  case (Cons a ls)
  show ?case
  proof (cases "HEX10_RE (strip a)")
    case False
    then show ?thesis by (simp add: Let_def)
  next
    case True
    with Cons.prems have "l \<in> set ls" by auto
    then obtain j b where "validate (Suc i) ls = Inl (InvalidLFA j b)"
      using Cons.IH [of "Suc i"] Cons.prems(2) by blast
    with True show ?thesis by (simp add: Let_def)
  qed
qed


lemma shuffle_loop_mset: "shuffle_loop g c i x = Inr y \<Longrightarrow> mset y = mset x"
proof (induction i arbitrary: c x)
  case 0
  then show ?case by simp
next
  case (Suc i')
  let ?j = "g c (Suc i' + 1)"
  from Suc.prems have b: "Suc i' < length x" "?j < length x"
    by (auto simp add: Let_def split: if_splits)
  with Suc.prems have "shuffle_loop g (Suc c) i' (x[Suc i' := x ! ?j, ?j := x ! Suc i']) = Inr y"
    by (simp add: Let_def)
  then have "mset y = mset (x[Suc i' := x ! ?j, ?j := x ! Suc i'])" by (rule Suc.IH)
  also have "\<dots> = mset x" using b by (simp add: mset_swap)
  finally show ?case .
qed

lemma shuffle_set: "shuffle g x = Inr y \<Longrightarrow> set y = set x"
  unfolding shuffle_def by (drule shuffle_loop_mset) (rule mset_eq_setD)

lemma apply_ordering_set: "apply_ordering rt as order sd = Inr y \<Longrightarrow> set y = set as"
  by (auto simp add: apply_ordering_def Let_def dest: shuffle_set split: if_splits)

lemma apply_ordering_sequential: "apply_ordering rt as ''sequential'' sd = Inr as"
  by (simp add: apply_ordering_def Let_def lower_def strip_def is_space_def lower_char_def
      lower_table_def)

lemma validate_LFA: "validate i ls = Inr as \<Longrightarrow> list_all is_LFA as"
proof -
  assume "validate i ls = Inr as"
  then have a: "as = map (\<lambda>l. upper (strip l)) ls" and h: "list_all HEX10_RE (map strip ls)"
    using validate_Inr by blast+
  show ?thesis unfolding a using h
    by (auto simp add: list_all_iff HEX10_RE_strip intro: is_LFA_upper)
qed

lemma Profile_init_Inr:
  assumes "Profile_init rt kwargs = Inr p"
  shows "\<exists>raws as. files rt (apath p) = Some raws
           \<and> kw_first (norm_keys kwargs) ''path'' ''file'' = Some (apath p)
           \<and> validate 1 (load_addresses_file raws) = Inr as
           \<and> canonical_mode [norm_keys kwargs ''mode'', norm_keys kwargs ''order''] = Some (amode p)
           \<and> apply_ordering rt as (if amode p = ''random'' then ''shuffle'' else ''sequential'')
                (coerce_int rt (kw_first (norm_keys kwargs) ''seed'' ''global_seed''))
               = Inr (addrs p)
           \<and> idx p = 0"
  using assms
  by (auto simp add: Profile_init_def Let_def split: option.splits if_splits sum.splits)

lemma Profile_init_LFA: "Profile_init rt kwargs = Inr p \<Longrightarrow> list_all is_LFA (addrs p)"
proof -
  assume "Profile_init rt kwargs = Inr p"
  then obtain raws as ord sd where v: "validate 1 (load_addresses_file raws) = Inr as"
    and o: "apply_ordering rt as ord sd = Inr (addrs p)"
    using Profile_init_Inr by blast
  from o have "set (addrs p) = set as" by (rule apply_ordering_set)
  with validate_LFA [OF v] show ?thesis by (simp add: list_all_iff)
qed

lemma served_eq: "served n p = take n (drop (idx p) (addrs p))"
proof (induction n arbitrary: p)
  case 0
  then show ?case by simp
next
  case (Suc n)
  show ?case
  proof (cases "length (addrs p) \<le> idx p")
    case True
    then show ?thesis by (simp add: next_address_def)
  next
    case False
    then have d: "drop (idx p) (addrs p) = addrs p ! idx p # drop (Suc (idx p)) (addrs p)"
      by (simp add: Cons_nth_drop_Suc)
    from False show ?thesis
      by (simp add: next_address_def Suc.IH d)
  qed
qed

lemma load_addresses_file_mem:
  "raw \<in> set raws \<Longrightarrow> strip raw \<noteq> [] \<Longrightarrow> take 1 (strip raw) \<noteq> ''#'' \<Longrightarrow>
   strip raw \<in> set (load_addresses_file raws)"
  by (induction raws) (auto simp add: Let_def)

lemma strip_idem: "strip (strip s) = strip s"
proof (cases "strip s = []")
  case True
  have "strip [] = []" by (simp add: strip_def)
  with True show ?thesis by simp
next
  case False
  let ?a = "dropWhile is_space s"
  let ?r = "dropWhile is_space (rev ?a)"
  have s: "strip s = rev ?r" by (simp add: strip_def)
  from False have r: "?r \<noteq> []" by (simp add: strip_def)
  have a: "?a \<noteq> []"
  proof
    assume e: "?a = []"
    have "?r = dropWhile is_space (rev [])" by (simp only: e)
    with r show False by simp
  qed
  have h: "\<not> is_space (hd ?r)" using r by (rule hd_dropWhile)
  have ha: "\<not> is_space (hd ?a)" using a by (rule hd_dropWhile)
  obtain u where u: "rev ?a = u @ ?r" 
    by (metis takeWhile_dropWhile_id)
  then have "?a = rev ?r @ rev u" by (metis rev_append rev_rev_ident)
  with r have "hd (rev ?r) = hd ?a" by (metis hd_append2 rev_is_Nil_conv)
  with ha have 1: "dropWhile is_space (rev ?r) = rev ?r"
    using r by (cases "rev ?r") auto
  have 2: "dropWhile is_space ?r = ?r" using h r by (cases ?r) auto
  show ?thesis
    unfolding s unfolding strip_def [of "rev ?r"] 1 rev_rev_ident 2 ..
qed


lemma example_profile_init:
  "Profile_init example_runtime [(''path'', ''lfa.txt''), (''mode'', ''sequential'')]
     = Inr example_profile"
  by (simp add: Profile_init_def example_runtime_def example_profile_def norm_keys_def
      kw_first_def lower_def strip_def is_space_def lower_char_def lower_table_def newline_def
      HEX10_RE_def is_hex_def at_dollar_def upper_def upper_char_def canonical_mode.simps
      coerce_int_def apply_ordering_def Let_def)

text \<open>
  Claim C6: every address that \<open>next_address\<close> serves, from any cursor position of a
  constructed profile, is exactly ten characters, each a digit or a capital \<open>A\<close> to
  \<open>F\<close>; and when the address file holds a line that, stripped, is neither blank nor
  a comment nor ten hexadecimal digits, construction fails with an error.
\<close>

theorem C6_address_list_serves_only_valid_LFAs:
  "(Profile_init rt kwargs = Inr p \<longrightarrow> list_all is_LFA (served n (p\<lparr>idx := i\<rparr>)))
   \<and> (kw_first (norm_keys kwargs') ''path'' ''file'' = Some pth \<and> files rt pth = Some raws
        \<and> raw \<in> set raws \<and> strip raw \<noteq> [] \<and> take 1 (strip raw) \<noteq> ''#''
        \<and> \<not> (length (strip raw) = 10 \<and> list_all is_hex (strip raw))
       \<longrightarrow> (\<exists>e. Profile_init rt kwargs' = Inl e))"
proof (intro conjI impI)
  assume "Profile_init rt kwargs = Inr p"
  then have "list_all is_LFA (addrs p)" by (rule Profile_init_LFA)
  then show "list_all is_LFA (served n (p\<lparr>idx := i\<rparr>))"
    by (auto simp add: served_eq list_all_iff dest!: in_set_takeD in_set_dropD)
next
  assume a: "kw_first (norm_keys kwargs') ''path'' ''file'' = Some pth \<and> files rt pth = Some raws
        \<and> raw \<in> set raws \<and> strip raw \<noteq> [] \<and> take 1 (strip raw) \<noteq> ''#''
        \<and> \<not> (length (strip raw) = 10 \<and> list_all is_hex (strip raw))"
  then have "strip raw \<in> set (load_addresses_file raws)"
    by (simp add: load_addresses_file_mem)
  moreover from a have "\<not> HEX10_RE (strip (strip raw))"
    by (simp only: strip_idem HEX10_RE_strip) simp
  ultimately obtain j b where "validate 1 (load_addresses_file raws) = Inl (InvalidLFA j b)"
    using validate_Inl by blast
  with a show "\<exists>e. Profile_init rt kwargs' = Inl e"
    by (simp add: Profile_init_def Let_def)
qed

theorem C6_address_list_serves_only_valid_LFAs_witness:
  "Profile_init example_runtime [(''path'', ''lfa.txt''), (''mode'', ''sequential'')]
     = Inr example_profile
   \<and> served 3 (example_profile\<lparr>idx := 0\<rparr>) = [''00000000AB'', ''0123456789'', ''FFFFFFFFFF'']
   \<and> list_all is_LFA (served 3 (example_profile\<lparr>idx := 0\<rparr>))
   \<and> files example_runtime ''bad.txt'' = Some [''00000000AB'' @ [newline], ''0123'' @ [newline]]
   \<and> strip (''0123'' @ [newline]) = ''0123''
   \<and> Profile_init example_runtime [(''path'', ''bad.txt''), (''mode'', ''sequential'')]
       = Inl (InvalidLFA 2 ''0123'')"
  using C6_address_list_serves_only_valid_LFAs
    [of example_runtime "[(''path'', ''lfa.txt''), (''mode'', ''sequential'')]" example_profile
        3 0 "[(''path'', ''bad.txt''), (''mode'', ''sequential'')]" "''bad.txt''"
        "[''00000000AB'' @ [newline], ''0123'' @ [newline]]" "''0123'' @ [newline]"]
  by (simp add: example_profile_init)
     (simp add: Profile_init_def example_runtime_def example_profile_def norm_keys_def
      kw_first_def lower_def strip_def is_space_def lower_char_def lower_table_def newline_def
      HEX10_RE_def is_hex_def at_dollar_def upper_def upper_char_def served_eq Let_def)

text \<open>
  Claim C7: with a seed that parses as an integer, construction does not depend on the
  entropy of the run, so two constructions from the same file and seed give the same
  profile and serve the same addresses; in sequential mode the addresses served are
  the address lines of the file, uppercased, in file order.
\<close>

theorem C7_address_order_reproducible:
  "(coerce_int rt (kw_first (norm_keys kwargs) ''seed'' ''global_seed'') = Some sd \<longrightarrow>
      Profile_init (rt\<lparr>Random_entropy := e1\<rparr>) kwargs
        = Profile_init (rt\<lparr>Random_entropy := e2\<rparr>) kwargs)
   \<and> (Profile_init rt kwargs' = Inr p \<and> amode p = ''sequential''
        \<and> files rt (apath p) = Some raws \<longrightarrow>
      served (length (addrs p)) p = map upper (load_addresses_file raws))"
proof (intro conjI impI)
  assume s: "coerce_int rt (kw_first (norm_keys kwargs) ''seed'' ''global_seed'') = Some sd"
  have c: "coerce_int (rt\<lparr>Random_entropy := e\<rparr>) v = coerce_int rt v" for e v
    by (simp add: coerce_int_def split: option.splits)
  have o: "apply_ordering (rt\<lparr>Random_entropy := e\<rparr>) as ord (Some sd)
             = apply_ordering rt as ord (Some sd)" for e as ord
    by (simp add: apply_ordering_def)
  show "Profile_init (rt\<lparr>Random_entropy := e1\<rparr>) kwargs
        = Profile_init (rt\<lparr>Random_entropy := e2\<rparr>) kwargs"
    by (simp add: Profile_init_def c s o cong: option.case_cong sum.case_cong if_cong)
next
  assume a: "Profile_init rt kwargs' = Inr p \<and> amode p = ''sequential''
        \<and> files rt (apath p) = Some raws"
  then obtain as where v: "validate 1 (load_addresses_file raws) = Inr as"
    and o: "apply_ordering rt as ''sequential''
              (coerce_int rt (kw_first (norm_keys kwargs') ''seed'' ''global_seed'')) = Inr (addrs p)"
    and i: "idx p = 0"
    using Profile_init_Inr [of rt kwargs' p] by auto
  from o have "addrs p = as" by (simp add: apply_ordering_sequential)
  moreover from v have "as = map (\<lambda>l. upper (strip l)) (load_addresses_file raws)"
    using validate_Inr by blast
  moreover have "map (\<lambda>l. upper (strip l)) (load_addresses_file raws)
                   = map upper (load_addresses_file raws)"
    by (induction raws) (simp_all add: Let_def strip_idem)
  ultimately show "served (length (addrs p)) p = map upper (load_addresses_file raws)"
    using i by (simp add: served_eq)
qed

theorem C7_address_order_reproducible_witness:
  "coerce_int example_runtime
      (kw_first (norm_keys [(''path'', ''lfa.txt''), (''mode'', ''random''), (''seed'', ''7'')])
         ''seed'' ''global_seed'') = Some 7
   \<and> Profile_init (example_runtime\<lparr>Random_entropy := (\<lambda>c n. 0)\<rparr>)
        [(''path'', ''lfa.txt''), (''mode'', ''random''), (''seed'', ''7'')]
     = Profile_init (example_runtime\<lparr>Random_entropy := (\<lambda>c n. n - 1)\<rparr>)
        [(''path'', ''lfa.txt''), (''mode'', ''random''), (''seed'', ''7'')]
   \<and> Profile_init example_runtime [(''path'', ''lfa.txt''), (''mode'', ''sequential'')]
       = Inr example_profile
   \<and> served (length (addrs example_profile)) example_profile
       = [''00000000AB'', ''0123456789'', ''FFFFFFFFFF'']"
  using C7_address_order_reproducible
    [of example_runtime "[(''path'', ''lfa.txt''), (''mode'', ''random''), (''seed'', ''7'')]" 7
        "\<lambda>c n. 0" "\<lambda>c n. n - 1" "[(''path'', ''lfa.txt''), (''mode'', ''sequential'')]"
        example_profile
        "[''# targets'' @ [newline], ''00000000ab'' @ [newline], [newline],
          ''  0123456789  '' @ [newline], ''FFFFFFFFFF'']"]
  by (simp add: example_profile_init)
     (simp add: example_runtime_def example_profile_def norm_keys_def coerce_int_def
      kw_first_def lower_def strip_def is_space_def lower_char_def lower_table_def newline_def
      upper_def upper_char_def served_eq Let_def)

lemma unseeded_shuffle_depends_on_entropy:
  "Profile_init (example_runtime\<lparr>Random_entropy := (\<lambda>c n. 0)\<rparr>)
        [(''path'', ''lfa.txt''), (''mode'', ''random'')]
   \<noteq> Profile_init (example_runtime\<lparr>Random_entropy := (\<lambda>c n. n - 1)\<rparr>)
        [(''path'', ''lfa.txt''), (''mode'', ''random'')]"
  by (simp add: Profile_init_def example_runtime_def norm_keys_def
      kw_first_def lower_def strip_def is_space_def lower_char_def lower_table_def newline_def
      HEX10_RE_def is_hex_def at_dollar_def upper_def upper_char_def
      coerce_int_def apply_ordering_def shuffle_def Let_def)

text \<open>
  Claim C10: \<open>end_condition_prompt\<close> returns the fixed message of its table when the
  reason, stripped and lowercased, is a key of the table (\<open>exhausted\<close> for the address
  list; \<open>duration_elapsed\<close> and \<open>max_reached\<close> for the uniform profile) and the empty
  string for every other reason. The functions are total: no reason makes them fail.
\<close>

theorem C10_end_condition_prompt:
  "address_list_end_condition_prompt reason
     = (if lower (strip reason) = ''exhausted'' then ''Address list exhausted.'' else [])
   \<and> uniform_end_condition_prompt reason
     = (if lower (strip reason) = ''duration_elapsed'' then ''Duration limit reached.''
        else if lower (strip reason) = ''max_reached'' then ''Maximum shots limit reached.''
        else [])"
  by (simp add: address_list_end_condition_prompt_def uniform_end_condition_prompt_def
      dict_get_def address_list_END_MESSAGES_def uniform_END_MESSAGES_def)

theorem C10_end_condition_prompt_witness:
  "lower (strip ('' Max_REACHED'' @ [newline])) = ''max_reached''
   \<and> uniform_end_condition_prompt ('' Max_REACHED'' @ [newline]) = ''Maximum shots limit reached.''
   \<and> address_list_end_condition_prompt ('' Max_REACHED'' @ [newline]) = []"
  using C10_end_condition_prompt [of "'' Max_REACHED'' @ [newline]"]
  by (simp add: lower_def strip_def is_space_def lower_char_def lower_table_def newline_def)


section \<open>Properties of the rate capping\<close>

lemma map_of_dict_set: "map_of (dict_set k v d) = (map_of d)(k \<mapsto> v)"
  by (induction d) (auto simp add: fun_eq_iff)

text \<open>
  Claim C9 as stated fails in both of its parts. With the safety derate set to \<open>0\<close>
  the platform maximum is \<open>0\<close>, and a requested rate of 5 Hz is kept as it is (the
  keywords are rewritten to \<open>rate_hz=5\<close>, \<open>period_s=0.2\<close>), while the minimum of the two
  rates is \<open>0\<close>. And with the default settings (a maximum of 10 kHz) a requested rate of
  3 Hz is rewritten to \<open>rate_hz=3\<close>, \<open>period_s=0.333333333333\<close>: the two keywords are
  rendered to 12 significant digits, and the numbers they denote are not reciprocals
  of each other.
\<close>

theorem C9_not_minimum_nor_exact_reciprocals:
  "compute_platform_max_rate_hz example_settings = Inr 0
   \<and> resolve_requested_rate_hz example_pyfloat [(''rate_hz'', ''5'')] = (Some 5, ''rate_hz'')
   \<and> reconcile_and_cap_time_kwargs example_pyfloat example_settings [(''rate_hz'', ''5'')]
       = Inr ([(''rate_hz'', ''5''), (''period_s'', ''0.2'')], Some 5, Some 0, None)
   \<and> eff_rate_of 5 0 = 5 \<and> min (5::real) 0 = 0
   \<and> compute_platform_max_rate_hz default_settings = Inr 10000
   \<and> reconcile_and_cap_time_kwargs example_pyfloat default_settings [(''rate_hz'', ''3'')]
       = Inr ([(''rate_hz'', ''3''), (''period_s'', ''0.333333333333'')],
              Some 3, Some 10000, None)
   \<and> py_float example_pyfloat ''3'' = Some 3
   \<and> py_float example_pyfloat ''0.333333333333'' = Some (333333333333 / 1000000000000)
   \<and> (3::real) * (333333333333 / 1000000000000) \<noteq> 1"
  by (simp add: compute_platform_max_rate_hz_def example_settings_def default_settings_def
      getattr_def resolve_requested_rate_hz_def example_pyfloat_def
      reconcile_and_cap_time_kwargs_def eff_rate_of_def Let_def)

text \<open>
  Claim C9 (amended). The requested rate is \<open>rate_hz\<close> when that keyword is present
  and parses as a float; otherwise it is \<open>1/period_s\<close> when \<open>period_s\<close> is present and
  parses to a positive number; otherwise no rate is requested and the keywords are
  returned as they were. When a rate is requested, the effective rate is the minimum
  of the requested rate and the platform maximum when that maximum is positive, and
  the requested rate itself when the maximum is zero; when the effective rate is
  positive the keywords \<open>rate_hz\<close> and \<open>period_s\<close> are rewritten to the renderings, to
  12 significant digits, of the effective rate and of its reciprocal, and otherwise
  the keywords are left as they were.
\<close>

theorem C9_effective_rate_capped:
  "(map_of kw1 ''rate_hz'' = Some v1 \<and> py_float pf v1 = Some r \<longrightarrow>
      resolve_requested_rate_hz pf kw1 = (Some r, ''rate_hz''))
   \<and> ((map_of kw2 ''rate_hz'' = None
         \<or> (\<exists>v. map_of kw2 ''rate_hz'' = Some v \<and> py_float pf v = None))
        \<and> map_of kw2 ''period_s'' = Some v2 \<and> py_float pf v2 = Some p \<and> p > 0 \<longrightarrow>
      resolve_requested_rate_hz pf kw2 = (Some (1 / p), ''period_s''))
   \<and> ((map_of kw3 ''rate_hz'' = None
         \<or> (\<exists>v. map_of kw3 ''rate_hz'' = Some v \<and> py_float pf v = None))
        \<and> (map_of kw3 ''period_s'' = None
             \<or> (\<exists>v. map_of kw3 ''period_s'' = Some v
                    \<and> (py_float pf v = None \<or> (\<exists>q. py_float pf v = Some q \<and> q \<le> 0)))) \<longrightarrow>
      resolve_requested_rate_hz pf kw3 = (None, ''none'')
      \<and> (compute_platform_max_rate_hz st = Inr cap \<longrightarrow>
           reconcile_and_cap_time_kwargs pf st kw3 = Inr (kw3, None, Some cap, None)))
   \<and> (compute_platform_max_rate_hz st = Inr cap
        \<and> fst (resolve_requested_rate_hz pf time_kwargs) = Some req \<longrightarrow>
      (\<exists>msg.
         reconcile_and_cap_time_kwargs pf st time_kwargs
           = Inr (if eff_rate_of req cap > 0
                  then dict_set ''period_s'' (format_12g pf (1 / eff_rate_of req cap))
                         (dict_set ''rate_hz'' (format_12g pf (eff_rate_of req cap)) time_kwargs)
                  else time_kwargs,
                  Some req, Some cap, msg))
      \<and> eff_rate_of req cap = (if cap > 0 then min req cap else req)
      \<and> (eff_rate_of req cap > 0 \<longrightarrow>
           map_of (fst (projr (reconcile_and_cap_time_kwargs pf st time_kwargs)))
             = (map_of time_kwargs)(''rate_hz'' \<mapsto> format_12g pf (eff_rate_of req cap),
                                   ''period_s'' \<mapsto> format_12g pf (1 / eff_rate_of req cap))))"
proof (intro conjI impI)
  assume "map_of kw1 ''rate_hz'' = Some v1 \<and> py_float pf v1 = Some r"
  then show "resolve_requested_rate_hz pf kw1 = (Some r, ''rate_hz'')"
    by (simp add: resolve_requested_rate_hz_def)
next
  assume "(map_of kw2 ''rate_hz'' = None
            \<or> (\<exists>v. map_of kw2 ''rate_hz'' = Some v \<and> py_float pf v = None))
          \<and> map_of kw2 ''period_s'' = Some v2 \<and> py_float pf v2 = Some p \<and> p > 0"
  then show "resolve_requested_rate_hz pf kw2 = (Some (1 / p), ''period_s'')"
    by (auto simp add: resolve_requested_rate_hz_def)
next
  assume a: "(map_of kw3 ''rate_hz'' = None
            \<or> (\<exists>v. map_of kw3 ''rate_hz'' = Some v \<and> py_float pf v = None))
          \<and> (map_of kw3 ''period_s'' = None
             \<or> (\<exists>v. map_of kw3 ''period_s'' = Some v
                    \<and> (py_float pf v = None \<or> (\<exists>q. py_float pf v = Some q \<and> q \<le> 0))))"
  then show n: "resolve_requested_rate_hz pf kw3 = (None, ''none'')"
    by (auto simp add: resolve_requested_rate_hz_def)
  assume "compute_platform_max_rate_hz st = Inr cap"
  then show "reconcile_and_cap_time_kwargs pf st kw3 = Inr (kw3, None, Some cap, None)"
    using n by (simp add: reconcile_and_cap_time_kwargs_def)
next
  assume a: "compute_platform_max_rate_hz st = Inr cap
             \<and> fst (resolve_requested_rate_hz pf time_kwargs) = Some req"
  then show "\<exists>msg.
         reconcile_and_cap_time_kwargs pf st time_kwargs
           = Inr (if eff_rate_of req cap > 0
                  then dict_set ''period_s'' (format_12g pf (1 / eff_rate_of req cap))
                         (dict_set ''rate_hz'' (format_12g pf (eff_rate_of req cap)) time_kwargs)
                  else time_kwargs,
                  Some req, Some cap, msg)"
    by (simp add: reconcile_and_cap_time_kwargs_def eff_rate_of_def Let_def)
  show "eff_rate_of req cap = (if cap > 0 then min req cap else req)"
    by (simp add: eff_rate_of_def)
  assume "eff_rate_of req cap > 0"
  then show "map_of (fst (projr (reconcile_and_cap_time_kwargs pf st time_kwargs)))
             = (map_of time_kwargs)(''rate_hz'' \<mapsto> format_12g pf (eff_rate_of req cap),
                                   ''period_s'' \<mapsto> format_12g pf (1 / eff_rate_of req cap))"
    using a by (simp add: reconcile_and_cap_time_kwargs_def eff_rate_of_def Let_def
        map_of_dict_set)
qed

theorem C9_effective_rate_capped_witness:
  "map_of [(''ack'', ''true''), (''rate_hz'', ''20000''), (''period_s'', ''5'')] ''rate_hz''
     = Some ''20000''
   \<and> py_float example_pyfloat ''20000'' = Some 20000
   \<and> resolve_requested_rate_hz example_pyfloat
        [(''ack'', ''true''), (''rate_hz'', ''20000''), (''period_s'', ''5'')]
       = (Some 20000, ''rate_hz'')
   \<and> map_of [(''rate_hz'', ''abc''), (''period_s'', ''5'')] ''rate_hz'' = Some ''abc''
   \<and> py_float example_pyfloat ''abc'' = None
   \<and> map_of [(''rate_hz'', ''abc''), (''period_s'', ''5'')] ''period_s'' = Some ''5''
   \<and> py_float example_pyfloat ''5'' = Some 5 \<and> (0::real) < 5
   \<and> resolve_requested_rate_hz example_pyfloat [(''rate_hz'', ''abc''), (''period_s'', ''5'')]
       = (Some (1 / 5), ''period_s'')
   \<and> map_of [(''period_s'', ''0'')] ''rate_hz'' = None
   \<and> map_of [(''period_s'', ''0'')] ''period_s'' = Some ''0''
   \<and> py_float example_pyfloat ''0'' = Some 0
   \<and> resolve_requested_rate_hz example_pyfloat [(''period_s'', ''0'')] = (None, ''none'')
   \<and> compute_platform_max_rate_hz default_settings = Inr 10000
   \<and> reconcile_and_cap_time_kwargs example_pyfloat default_settings [(''period_s'', ''0'')]
       = Inr ([(''period_s'', ''0'')], None, Some 10000, None)
   \<and> fst (resolve_requested_rate_hz example_pyfloat
            [(''ack'', ''true''), (''rate_hz'', ''20000''), (''period_s'', ''5'')])
       = Some 20000
   \<and> eff_rate_of 20000 10000 = 10000
   \<and> reconcile_and_cap_time_kwargs example_pyfloat default_settings
        [(''ack'', ''true''), (''rate_hz'', ''20000''), (''period_s'', ''5'')]
       = Inr ([(''ack'', ''true''), (''rate_hz'', ''10000''), (''period_s'', ''0.0001'')],
              Some 20000, Some 10000, Some (CapInfo 20000 10000 10000 (1 / 10000)))"
  using C9_effective_rate_capped [of
      "[(''ack'', ''true''), (''rate_hz'', ''20000''), (''period_s'', ''5'')]" "''20000''"
      example_pyfloat 20000
      "[(''rate_hz'', ''abc''), (''period_s'', ''5'')]" "''5''" 5
      "[(''period_s'', ''0'')]" default_settings 10000
      "[(''ack'', ''true''), (''rate_hz'', ''20000''), (''period_s'', ''5'')]" 20000]
  by (simp add: compute_platform_max_rate_hz_def default_settings_def getattr_def
      resolve_requested_rate_hz_def example_pyfloat_def reconcile_and_cap_time_kwargs_def
      eff_rate_of_def Let_def)

section \<open>Properties of the uniform scheduler\<close>

lemma writes_append: "writes (xs @ ys) = writes xs @ writes ys"
  by (induction xs rule: writes.induct) simp_all

lemma rx_reads_append: "rx_reads (xs @ ys) = rx_reads xs + rx_reads ys"
  by (induction xs rule: rx_reads.induct) simp_all

lemma same_run_refl: "same_run s s"
  by (simp add: same_run_def)

lemma same_run_trans: "same_run s s' \<Longrightarrow> same_run s' s'' \<Longrightarrow> same_run s s''"
  by (simp add: same_run_def)

lemma same_run_now: "same_run s (snd (now e s))"
  by (simp add: same_run_def now_def)

lemma spin_same: "spin f e d s = Some s' \<Longrightarrow> same_run s s'"
proof (induction f arbitrary: s)
  case 0
  then show ?case by simp
next
  case (Suc f)
  show ?case
  proof (cases "perf_counter e (n_clock s) < d")
    case True
    with Suc.prems have "spin f e d (snd (now e s)) = Some s'"
      by (simp add: now_def)
    then have "same_run (snd (now e s)) s'" by (rule Suc.IH)
    with same_run_now show ?thesis by (rule same_run_trans)
  next
    case False
    with Suc.prems have "s' = snd (now e s)" by (simp add: now_def)
    then show ?thesis by (simp add: same_run_now)
  qed
qed

lemma sleep_until_same: "sleep_until f e d s = Some s' \<Longrightarrow> same_run s s'"
proof (induction f arbitrary: s)
  case 0
  then show ?case by simp
next
  case (Suc f)
  let ?s1 = "snd (now e s)"
  let ?rem = "d - perf_counter e (n_clock s)"
  consider (reached) "?rem \<le> 0" | (sleep) "\<not> ?rem \<le> 0" "?rem > spin_threshold_s"
    | (spin) "\<not> ?rem \<le> 0" "\<not> ?rem > spin_threshold_s" by blast
  then show ?case
  proof cases
    case reached
    with Suc.prems have "s' = ?s1" by (simp add: now_def)
    then show ?thesis by (simp add: same_run_now)
  next
    case sleep
    with Suc.prems have "sleep_until f e d ?s1 = Some s'" by (simp add: now_def)
    then have "same_run ?s1 s'" by (rule Suc.IH)
    with same_run_now show ?thesis by (rule same_run_trans)
  next
    case spin
    with Suc.prems have "spin f e d ?s1 = Some s'" by (simp add: now_def)
    then have "same_run ?s1 s'" by (rule spin_same)
    with same_run_now show ?thesis by (rule same_run_trans)
  qed
qed

lemma pause_loop_same: "pause_loop f e s = Some s' \<Longrightarrow> same_run s s'"
proof (induction f arbitrary: s)
  case 0
  then show ?case by simp
next
  case (Suc f)
  let ?s1 = "snd (poll_pause e s)"
  let ?s2 = "snd (poll_stop e ?s1)"
  have 1: "same_run s ?s1" by (simp add: same_run_def poll_pause_def)
  have 2: "same_run ?s1 ?s2" by (simp add: same_run_def poll_stop_def)
  consider (free) "\<not> pause_is_set e (n_pause s)"
    | (stopped) "pause_is_set e (n_pause s)" "stop_is_set e (n_stop ?s1)"
    | (again) "pause_is_set e (n_pause s)" "\<not> stop_is_set e (n_stop ?s1)" by blast
  then show ?case
  proof cases
    case free
    with Suc.prems have "s' = ?s1" by (simp add: poll_pause_def)
    with 1 show ?thesis by simp
  next
    case stopped
    with Suc.prems have "s' = ?s2" by (simp add: poll_pause_def poll_stop_def)
    with 1 2 show ?thesis by (auto intro: same_run_trans)
  next
    case again
    with Suc.prems have "pause_loop f e ?s2 = Some s'"
      by (simp add: poll_pause_def poll_stop_def)
    then have "same_run ?s2 s'" by (rule Suc.IH)
    with 1 2 show ?thesis by (auto intro: same_run_trans)
  qed
qed

lemma spin_mono: "spin f e d s = Some s' \<Longrightarrow> f \<le> f' \<Longrightarrow> spin f' e d s = Some s'"
proof (induction f arbitrary: s f')
  case 0
  then show ?case by simp
next
  case (Suc f)
  then obtain g where g: "f' = Suc g" "f \<le> g" by (cases f') auto
  show ?case
  proof (cases "perf_counter e (n_clock s) < d")
    case True
    with Suc.prems have "spin f e d (snd (now e s)) = Some s'" by (simp add: now_def)
    then have "spin g e d (snd (now e s)) = Some s'" using g(2) by (rule Suc.IH)
    with True show ?thesis by (simp add: g now_def)
  next
    case False
    with Suc.prems show ?thesis by (simp add: g now_def)
  qed
qed

lemma sleep_until_mono:
  "sleep_until f e d s = Some s' \<Longrightarrow> f \<le> f' \<Longrightarrow> sleep_until f' e d s = Some s'"
proof (induction f arbitrary: s f')
  case 0
  then show ?case by simp
next
  case (Suc f)
  then obtain g where g: "f' = Suc g" "f \<le> g" by (cases f') auto
  let ?s1 = "snd (now e s)"
  let ?rem = "d - perf_counter e (n_clock s)"
  consider (reached) "?rem \<le> 0" | (sleep) "\<not> ?rem \<le> 0" "?rem > spin_threshold_s"
    | (spin) "\<not> ?rem \<le> 0" "\<not> ?rem > spin_threshold_s" by blast
  then show ?case
  proof cases
    case reached
    with Suc.prems show ?thesis by (simp add: g now_def)
  next
    case sleep
    with Suc.prems have "sleep_until f e d ?s1 = Some s'" by (simp add: now_def)
    then have "sleep_until g e d ?s1 = Some s'" using g(2) by (rule Suc.IH)
    with sleep show ?thesis by (simp add: g now_def)
  next
    case spin
    with Suc.prems have "spin f e d ?s1 = Some s'" by (simp add: now_def)
    then have "spin g e d ?s1 = Some s'" using g(2) by (rule spin_mono)
    with spin show ?thesis by (simp add: g now_def)
  qed
qed

lemma spin_ends:
  "n_clock s \<le> m \<Longrightarrow> d \<le> perf_counter e m \<Longrightarrow> \<exists>f s'. spin f e d s = Some s'"
proof (induction "m - n_clock s" arbitrary: s)
  case 0
  then have "\<not> perf_counter e (n_clock s) < d" by simp
  then have "spin (Suc 0) e d s = Some (snd (now e s))" by (simp add: now_def)
  then show ?case by blast
next
  case (Suc x)
  show ?case
  proof (cases "perf_counter e (n_clock s) < d")
    case False
    then have "spin (Suc 0) e d s = Some (snd (now e s))" by (simp add: now_def)
    then show ?thesis by blast
  next
    case True
    let ?s1 = "snd (now e s)"
    have "x = m - n_clock ?s1" using Suc.hyps(2) by (simp add: now_def)
    moreover have "n_clock ?s1 \<le> m" using Suc.hyps(2) by (simp add: now_def)
    ultimately obtain f s' where "spin f e d ?s1 = Some s'"
      using Suc.hyps(1) Suc.prems(2) by blast
    with True have "spin (Suc f) e d s = Some s'" by (simp add: now_def)
    then show ?thesis by blast
  qed
qed

lemma sleep_until_ends_aux:
  "n_clock s \<le> m \<Longrightarrow> d \<le> perf_counter e m \<Longrightarrow> \<exists>f s'. sleep_until f e d s = Some s'"
proof (induction "m - n_clock s" arbitrary: s)
  case 0
  then have "d - perf_counter e (n_clock s) \<le> 0" by simp
  then have "sleep_until (Suc 0) e d s = Some (snd (now e s))" by (simp add: now_def)
  then show ?case by blast
next
  case (Suc x)
  let ?s1 = "snd (now e s)"
  let ?rem = "d - perf_counter e (n_clock s)"
  have m: "n_clock ?s1 \<le> m" using Suc.hyps(2) by (simp add: now_def)
  consider (reached) "?rem \<le> 0" | (sleep) "\<not> ?rem \<le> 0" "?rem > spin_threshold_s"
    | (spin) "\<not> ?rem \<le> 0" "\<not> ?rem > spin_threshold_s" by blast
  then show ?case
  proof cases
    case reached
    then have "sleep_until (Suc 0) e d s = Some ?s1" by (simp add: now_def)
    then show ?thesis by blast
  next
    case sleep
    have "x = m - n_clock ?s1" using Suc.hyps(2) by (simp add: now_def)
    then obtain f s' where "sleep_until f e d ?s1 = Some s'"
      using Suc.hyps(1) m Suc.prems(2) by blast
    with sleep have "sleep_until (Suc f) e d s = Some s'" by (simp add: now_def)
    then show ?thesis by blast
  next
    case spin
    obtain f s' where "spin f e d ?s1 = Some s'"
      using spin_ends [OF m Suc.prems(2)] by blast
    with spin have "sleep_until (Suc f) e d s = Some s'" by (simp add: now_def)
    then show ?thesis by blast
  qed
qed

lemma sleep_until_ends:
  assumes "clock_advances e"
  shows "\<exists>F s'. (\<forall>f\<ge>F. sleep_until f e d s = Some s') \<and> same_run s s'"
proof -
  from assms obtain m where "n_clock s \<le> m" "d \<le> perf_counter e m"
    unfolding clock_advances_def by blast
  then obtain F s' where F: "sleep_until F e d s = Some s'"
    using sleep_until_ends_aux by blast
  then have "\<forall>f\<ge>F. sleep_until f e d s = Some s'"
    by (auto intro: sleep_until_mono)
  moreover have "same_run s s'" using F by (rule sleep_until_same)
  ultimately show ?thesis by blast
qed

lemma pause_loop_free:
  "never_paused e \<Longrightarrow> pause_loop (Suc f) e s = Some (s\<lparr>n_pause := Suc (n_pause s)\<rparr>)"
  by (simp add: never_paused_def poll_pause_def)

lemma pause_loop_free':
  "never_paused e \<Longrightarrow> 1 \<le> g \<Longrightarrow> pause_loop g e s = Some (s\<lparr>n_pause := Suc (n_pause s)\<rparr>)"
  by (cases g) (simp_all add: pause_loop_free del: pause_loop.simps)

lemma run_loop_exhausted:
  "length (addrs (area s)) \<le> idx (area s) \<Longrightarrow>
   run_loop (Suc g) cfg e t0 shots k s = Some (exit_note s)"
  by simp

lemma run_loop_capped:
  assumes "never_stopped e" and "never_paused e" and "duration_s cfg = None"
    and "idx (area s) < length (addrs (area s))"
    and "max_shots cfg = Some m" and "m \<le> int shots" and "1 \<le> g"
  shows "\<exists>s'. run_loop (Suc g) cfg e t0 shots k s = Some s'
           \<and> trace s' = trace s @ [LogInfo (''Time profile [UNIFORM] finished. Maximum shots limit reached.'')]
           \<and> finished_reason s' = Some ''max_reached''
           \<and> area s' = (area s)\<lparr>idx := Suc (idx (area s))\<rparr>
           \<and> deadlines s' = deadlines s"
proof -
  have m: "uniform_end_condition_prompt ''max_reached'' = ''Maximum shots limit reached.''"
    by (simp add: uniform_end_condition_prompt_def dict_get_def uniform_END_MESSAGES_def
        lower_def strip_def is_space_def lower_char_def lower_table_def)
  from assms(1) have st: "\<And>n. stop_is_set e n = False" by (simp add: never_stopped_def)
  show ?thesis
    using assms(3-6)
    by (simp add: next_address_def poll_stop_def st pause_loop_free' [OF assms(2) assms(7)]
        log_profile_end_def m emit_def Let_def)
qed

lemma run_loop_fire:
  assumes "never_stopped e" and "never_paused e" and "duration_s cfg = None"
    and "idx (area s) < length (addrs (area s))"
    and "\<not> (case max_shots cfg of None \<Rightarrow> False | Some m \<Rightarrow> m \<le> int shots)"
    and "never_fails e"
  shows "\<exists>d s3.
           (\<forall>g\<ge>1. run_loop (Suc g) cfg e t0 shots k s
                    = (if period cfg > 0
                       then (case sleep_until g e d s3 of
                               None \<Rightarrow> None
                             | Some s4 \<Rightarrow> run_loop g cfg e t0 (Suc shots) (Suc k) s4)
                       else run_loop g cfg e t0 (Suc shots) (Suc k) s3))
           \<and> writes (trace s3) = writes (trace s) @ [''N '' @ addrs (area s) ! idx (area s)]
           \<and> rx_reads (trace s3) = rx_reads (trace s)
           \<and> finished_reason s3 = finished_reason s
           \<and> area s3 = (area s)\<lparr>idx := Suc (idx (area s))\<rparr>
           \<and> deadlines s3 = deadlines s @ [d]
           \<and> (period cfg > 0 \<and> \<not> gated cfg \<longrightarrow> d = t0 + real (Suc k) * period cfg)"
proof -
  from assms(1) have st: "\<And>n. stop_is_set e n = False" by (simp add: never_stopped_def)
  from assms(6) have wf: "\<And>n. write_fails e n = False" by (simp add: never_fails_def)
  show ?thesis
  proof (cases "gated cfg")
    case True
    let ?a = "addrs (area s) ! idx (area s)"
    let ?s3 = "s\<lparr>area := (area s)\<lparr>idx := Suc (idx (area s))\<rparr>,
                  n_pause := Suc (n_pause s), n_stop := Suc (Suc (n_stop s)),
                  first_shot := False, n_write := Suc (n_write s),
                  trace := trace s @ [AckStart] @ ([LogTx (''N '' @ ?a)]
                     @ (if tx_echo_callable cfg then [TxEcho (''N '' @ ?a)] else [])
                     @ [Write (''N '' @ ?a)]) @ [AckWait (ack_timeout_s cfg)],
                  n_clock := Suc (n_clock s),
                  deadlines := deadlines s @ [if period cfg > 0
                      then perf_counter e (n_clock s) + period cfg
                      else perf_counter e (n_clock s)]\<rparr>"
    let ?d = "if period cfg > 0 then perf_counter e (n_clock s) + period cfg
              else perf_counter e (n_clock s)"
    have "\<forall>g\<ge>1. run_loop (Suc g) cfg e t0 shots k s
                    = (if period cfg > 0
                       then (case sleep_until g e ?d ?s3 of
                               None \<Rightarrow> None
                             | Some s4 \<Rightarrow> run_loop g cfg e t0 (Suc shots) (Suc k) s4)
                       else run_loop g cfg e t0 (Suc shots) (Suc k) ?s3)"
      using assms(3-5) True
      by (simp add: next_address_def poll_stop_def st wf pause_loop_free' [OF assms(2)]
          maybe_first_shot_delay_def inject_def inject_lfa_def emit_def now_def Let_def)
    moreover have "writes (trace ?s3) = writes (trace s) @ [''N '' @ ?a]"
      by (simp add: writes_append)
    moreover have "rx_reads (trace ?s3) = rx_reads (trace s)"
      by (simp add: rx_reads_append)
    ultimately show ?thesis using True
      by (intro exI [of _ ?d] exI [of _ ?s3]) simp
  next
    case False
    let ?a = "addrs (area s) ! idx (area s)"
    let ?tr = "trace s @ ([LogTx (''N '' @ ?a)]
                     @ (if tx_echo_callable cfg then [TxEcho (''N '' @ ?a)] else [])
                     @ [Write (''N '' @ ?a)])"
    let ?d = "if period cfg > 0 then t0 + real (Suc k) * period cfg
              else perf_counter e (n_clock s)"
    let ?s3 = "if period cfg > 0
               then s\<lparr>area := (area s)\<lparr>idx := Suc (idx (area s))\<rparr>,
                      n_pause := Suc (n_pause s), n_stop := Suc (Suc (n_stop s)),
                      first_shot := False, n_write := Suc (n_write s), trace := ?tr,
                      deadlines := deadlines s @ [?d]\<rparr>
               else s\<lparr>area := (area s)\<lparr>idx := Suc (idx (area s))\<rparr>,
                      n_pause := Suc (n_pause s), n_stop := Suc (Suc (n_stop s)),
                      first_shot := False, n_write := Suc (n_write s), trace := ?tr,
                      n_clock := Suc (n_clock s),
                      deadlines := deadlines s @ [?d]\<rparr>"
    have "\<forall>g\<ge>1. run_loop (Suc g) cfg e t0 shots k s
                    = (if period cfg > 0
                       then (case sleep_until g e ?d ?s3 of
                               None \<Rightarrow> None
                             | Some s4 \<Rightarrow> run_loop g cfg e t0 (Suc shots) (Suc k) s4)
                       else run_loop g cfg e t0 (Suc shots) (Suc k) ?s3)"
      using assms(3-5) False
      by (simp add: next_address_def poll_stop_def st wf pause_loop_free' [OF assms(2)]
          maybe_first_shot_delay_def inject_def inject_lfa_def emit_def now_def Let_def)
    moreover have "writes (trace ?s3) = writes (trace s) @ [''N '' @ ?a]"
      by (simp add: writes_append)
    moreover have "rx_reads (trace ?s3) = rx_reads (trace s)"
      by (simp add: rx_reads_append)
    ultimately show ?thesis using False
      by (intro exI [of _ ?d] exI [of _ ?s3]) simp
  qed
qed

lemma shots_to_fire_0: "shots_to_fire cfg shots 0 = 0" and cap_hit_0: "\<not> cap_hit cfg shots 0"
  by (simp_all add: shots_to_fire_def cap_hit_def split: option.splits)

lemma shots_capped:
  "max_shots cfg = Some m \<Longrightarrow> m \<le> int shots \<Longrightarrow>
   shots_to_fire cfg shots n = 0 \<and> cap_hit cfg shots (Suc n)"
  by (simp add: shots_to_fire_def cap_hit_def)

lemma shots_fire:
  assumes "\<not> (case max_shots cfg of None \<Rightarrow> False | Some m \<Rightarrow> m \<le> int shots)"
  shows "shots_to_fire cfg shots (Suc n) = Suc (shots_to_fire cfg (Suc shots) n)"
    and "cap_hit cfg shots (Suc n) = cap_hit cfg (Suc shots) n"
proof -
  show "shots_to_fire cfg shots (Suc n) = Suc (shots_to_fire cfg (Suc shots) n)"
  proof (cases "max_shots cfg")
    case None
    then show ?thesis by (simp add: shots_to_fire_def)
  next
    case (Some m)
    with assms have "int shots < m" by simp
    then have "nat (m - int shots) = Suc (nat (m - int (Suc shots)))" by simp
    with Some show ?thesis by (simp add: shots_to_fire_def)
  qed
  show "cap_hit cfg shots (Suc n) = cap_hit cfg (Suc shots) n"
  proof (cases "max_shots cfg")
    case None
    then show ?thesis by (simp add: cap_hit_def)
  next
    case (Some m)
    with assms have "int shots < m" by simp
    with Some show ?thesis by (cases n) (auto simp add: cap_hit_def)
  qed
qed

lemma run_loop_ends:
  assumes ns: "never_stopped e" and np: "never_paused e" and ca: "clock_advances e"
    and nd: "duration_s cfg = None" and nf: "never_fails e"
  shows "length (addrs (area s)) - idx (area s) = n \<Longrightarrow>
    \<exists>F s'. (\<forall>f\<ge>F. run_loop f cfg e t0 shots k s = Some s')
      \<and> writes (trace s') = writes (trace s)
            @ map ((@) ''N '') (take (shots_to_fire cfg shots n) (drop (idx (area s)) (addrs (area s))))
      \<and> rx_reads (trace s') = rx_reads (trace s)
      \<and> finished_reason s' = (if cap_hit cfg shots n then Some ''max_reached'' else finished_reason s)
      \<and> addrs (area s') = addrs (area s)
      \<and> idx (area s') = idx (area s) + shots_to_fire cfg shots n + (if cap_hit cfg shots n then 1 else 0)
      \<and> (period cfg > 0 \<and> \<not> gated cfg \<longrightarrow>
           deadlines s' = deadlines s
              @ map (\<lambda>i. t0 + real (k + Suc i) * period cfg) [0..<shots_to_fire cfg shots n])"
proof (induction n arbitrary: s shots k)
  case 0
  then have ex: "length (addrs (area s)) \<le> idx (area s)" by simp
  have "\<forall>f\<ge>1. run_loop f cfg e t0 shots k s = Some (exit_note s)"
  proof (intro allI impI)
    fix f :: nat
    assume "1 \<le> f"
    then obtain g where "f = Suc g" by (cases f) auto
    with ex show "run_loop f cfg e t0 shots k s = Some (exit_note s)"
      by (simp add: run_loop_exhausted del: run_loop.simps)
  qed
  moreover have "writes (trace (exit_note s)) = writes (trace s)"
    by (simp add: exit_note_def emit_def writes_append)
  moreover have "rx_reads (trace (exit_note s)) = rx_reads (trace s)"
    by (simp add: exit_note_def emit_def rx_reads_append)
  moreover have "finished_reason (exit_note s) = finished_reason s"
    "area (exit_note s) = area s" "deadlines (exit_note s) = deadlines s"
    by (simp_all add: exit_note_def emit_def)
  ultimately show ?case
    by (intro exI [of _ 1] exI [of _ "exit_note s"]) (simp add: shots_to_fire_0 cap_hit_0)
next
  case (Suc n)
  then have lt: "idx (area s) < length (addrs (area s))" by simp
  let ?a = "addrs (area s) ! idx (area s)"
  have dr: "drop (idx (area s)) (addrs (area s)) = ?a # drop (Suc (idx (area s))) (addrs (area s))"
    using lt by (simp add: Cons_nth_drop_Suc)
  show ?case
  proof (cases "case max_shots cfg of None \<Rightarrow> False | Some m \<Rightarrow> m \<le> int shots")
    case True
    then obtain m where m: "max_shots cfg = Some m" "m \<le> int shots"
      by (auto split: option.splits)
    from shots_capped [OF m] have z: "shots_to_fire cfg shots (Suc n) = 0"
      and c: "cap_hit cfg shots (Suc n)" by simp_all
    have *: "\<exists>s'. run_loop (Suc (Suc 0)) cfg e t0 shots k s = Some s'
           \<and> trace s' = trace s @ [LogInfo (''Time profile [UNIFORM] finished. Maximum shots limit reached.'')]
           \<and> finished_reason s' = Some ''max_reached''
           \<and> area s' = (area s)\<lparr>idx := Suc (idx (area s))\<rparr>
           \<and> deadlines s' = deadlines s"
      by (rule run_loop_capped [OF ns np nd lt m]) simp
    then obtain s' where s': "run_loop (Suc (Suc 0)) cfg e t0 shots k s = Some s'"
      "trace s' = trace s @ [LogInfo (''Time profile [UNIFORM] finished. Maximum shots limit reached.'')]"
      "finished_reason s' = Some ''max_reached''"
      "area s' = (area s)\<lparr>idx := Suc (idx (area s))\<rparr>"
      "deadlines s' = deadlines s" by blast
    have "\<forall>f\<ge>2. run_loop f cfg e t0 shots k s = Some s'"
    proof (intro allI impI)
      fix f :: nat
      assume "2 \<le> f"
      then obtain g where g: "f = Suc g" "1 \<le> g" by (cases f) auto
      obtain s'' where s'': "run_loop (Suc g) cfg e t0 shots k s = Some s''"
           "trace s'' = trace s @ [LogInfo (''Time profile [UNIFORM] finished. Maximum shots limit reached.'')]"
           "finished_reason s'' = Some ''max_reached''"
           "area s'' = (area s)\<lparr>idx := Suc (idx (area s))\<rparr>"
           "deadlines s'' = deadlines s"
        using run_loop_capped [OF ns np nd lt m g(2), of t0 k] by blast
      have "run_loop (Suc g) cfg e t0 shots k s = run_loop (Suc (Suc 0)) cfg e t0 shots k s"
        using nd lt m ns
        by (simp add: next_address_def poll_stop_def never_stopped_def
            pause_loop_free' [OF np g(2)] pause_loop_free [OF np] Let_def
            del: pause_loop.simps)
      with s' g show "run_loop f cfg e t0 shots k s = Some s'" by simp
    qed
    moreover have "writes (trace s') = writes (trace s)"
      using s'(2) by (simp add: writes_append)
    moreover have "rx_reads (trace s') = rx_reads (trace s)"
      using s'(2) by (simp add: rx_reads_append)
    ultimately show ?thesis using s'(3-5) z c
      by (intro exI [of _ 2] exI [of _ s']) simp
  next
    case False
    from shots_fire [OF False, of n]
    have stf: "shots_to_fire cfg shots (Suc n) = Suc (shots_to_fire cfg (Suc shots) n)"
      and ch: "cap_hit cfg shots (Suc n) = cap_hit cfg (Suc shots) n" by simp_all
    obtain d s3 where step: "\<forall>g\<ge>1. run_loop (Suc g) cfg e t0 shots k s
                    = (if period cfg > 0
                       then (case sleep_until g e d s3 of
                               None \<Rightarrow> None
                             | Some s4 \<Rightarrow> run_loop g cfg e t0 (Suc shots) (Suc k) s4)
                       else run_loop g cfg e t0 (Suc shots) (Suc k) s3)"
      and w3: "writes (trace s3) = writes (trace s) @ [''N '' @ ?a]"
      and r3: "rx_reads (trace s3) = rx_reads (trace s)"
      and f3: "finished_reason s3 = finished_reason s"
      and a3: "area s3 = (area s)\<lparr>idx := Suc (idx (area s))\<rparr>"
      and d3: "deadlines s3 = deadlines s @ [d]"
      and dv: "period cfg > 0 \<and> \<not> gated cfg \<longrightarrow> d = t0 + real (Suc k) * period cfg"
      using run_loop_fire [OF ns np nd lt False nf, of t0 k] by blast
    obtain F1 s4 where sl: "period cfg > 0 \<longrightarrow> (\<forall>f\<ge>F1. sleep_until f e d s3 = Some s4)"
      and sm: "same_run s3 s4"
    proof (cases "period cfg > 0")
      case True
      obtain F s' where "\<forall>f\<ge>F. sleep_until f e d s3 = Some s'" "same_run s3 s'"
        using sleep_until_ends [OF ca, of d s3] by blast
      then show ?thesis using that by blast
    next
      case False
      then show ?thesis using that [of 0 s3] by (simp add: same_run_refl)
    qed
    define s5 where "s5 = (if period cfg > 0 then s4 else s3)"
    have sm5: "same_run s3 s5" using sm by (simp add: s5_def same_run_refl)
    have n5: "length (addrs (area s5)) - idx (area s5) = n"
      using sm5 a3 Suc.prems by (simp add: same_run_def)
    obtain F2 s' where rest: "\<forall>f\<ge>F2. run_loop f cfg e t0 (Suc shots) (Suc k) s5 = Some s'"
      and w: "writes (trace s') = writes (trace s5)
            @ map ((@) ''N '') (take (shots_to_fire cfg (Suc shots) n)
                (drop (idx (area s5)) (addrs (area s5))))"
      and r: "rx_reads (trace s') = rx_reads (trace s5)"
      and fr: "finished_reason s' = (if cap_hit cfg (Suc shots) n then Some ''max_reached''
                                     else finished_reason s5)"
      and ad: "addrs (area s') = addrs (area s5)"
      and ix: "idx (area s') = idx (area s5) + shots_to_fire cfg (Suc shots) n
                  + (if cap_hit cfg (Suc shots) n then 1 else 0)"
      and dl: "period cfg > 0 \<and> \<not> gated cfg \<longrightarrow>
           deadlines s' = deadlines s5
              @ map (\<lambda>i. t0 + real (Suc k + Suc i) * period cfg)
                  [0..<shots_to_fire cfg (Suc shots) n]"
      using Suc.IH [OF n5, of "Suc shots" "Suc k"] by blast
    have ends: "\<forall>f\<ge>Suc (Suc (max F1 F2)). run_loop f cfg e t0 shots k s = Some s'"
    proof (intro allI impI)
      fix f :: nat
      assume "Suc (Suc (max F1 F2)) \<le> f"
      then obtain g where g: "f = Suc g" "1 \<le> g" "F1 \<le> g" "F2 \<le> g" by (cases f) auto
      from step g(2) have "run_loop (Suc g) cfg e t0 shots k s
                    = (if period cfg > 0
                       then (case sleep_until g e d s3 of
                               None \<Rightarrow> None
                             | Some s4 \<Rightarrow> run_loop g cfg e t0 (Suc shots) (Suc k) s4)
                       else run_loop g cfg e t0 (Suc shots) (Suc k) s3)" by blast
      also have "\<dots> = run_loop g cfg e t0 (Suc shots) (Suc k) s5"
        using sl g(3) by (simp add: s5_def)
      also have "\<dots> = Some s'" using rest g(4) by blast
      finally show "run_loop f cfg e t0 shots k s = Some s'" using g(1) by simp
    qed
    have t5: "trace s5 = trace s3" "area s5 = area s3" "finished_reason s5 = finished_reason s3"
      "deadlines s5 = deadlines s3"
      using sm5 by (simp_all add: same_run_def)
    have "writes (trace s') = writes (trace s)
            @ map ((@) ''N '') (take (shots_to_fire cfg shots (Suc n))
                (drop (idx (area s)) (addrs (area s))))"
      using w by (simp add: t5 w3 a3 stf dr)
    moreover have "rx_reads (trace s') = rx_reads (trace s)"
      using r by (simp add: t5 r3)
    moreover have "finished_reason s' = (if cap_hit cfg shots (Suc n) then Some ''max_reached''
                                         else finished_reason s)"
      using fr by (simp add: t5 f3 ch)
    moreover have "addrs (area s') = addrs (area s)"
      using ad by (simp add: t5 a3)
    moreover have "idx (area s') = idx (area s) + shots_to_fire cfg shots (Suc n)
                  + (if cap_hit cfg shots (Suc n) then 1 else 0)"
      using ix by (simp add: t5 a3 stf ch)
    moreover have "period cfg > 0 \<and> \<not> gated cfg \<longrightarrow>
           deadlines s' = deadlines s
              @ map (\<lambda>i. t0 + real (k + Suc i) * period cfg) [0..<shots_to_fire cfg shots (Suc n)]"
      using dl dv by (simp add: t5 d3 stf map_upt_Suc del: upt_Suc)
    ultimately show ?thesis using ends by blast
  qed
qed

lemma inject_Inl:
  "inject cfg e a use_ack timeout s = Inl s' \<Longrightarrow>
   deadlines s' = deadlines s \<and> writes (trace s') = writes (trace s)"
  by (auto simp add: inject_def inject_lfa_def emit_def Let_def writes_append
      split: if_splits sum.splits)

lemma inject_Inr:
  "inject cfg e a use_ack timeout s = Inr s' \<Longrightarrow>
   deadlines s' = deadlines s \<and> writes (trace s') = writes (trace s) @ [''N '' @ a]"
  by (auto simp add: inject_def inject_lfa_def emit_def Let_def writes_append
      split: if_splits sum.splits)

lemma run_loop_Suc_cases:
  assumes "run_loop (Suc f) cfg e t0 shots k s = Some s'"
    and "period cfg > 0" and "\<not> gated cfg"
  shows "(deadlines s' = deadlines s \<and> writes (trace s') = writes (trace s))
       \<or> (\<exists>s4 w. run_loop f cfg e t0 (Suc shots) (Suc k) s4 = Some s'
             \<and> deadlines s4 = deadlines s @ [t0 + real (Suc k) * period cfg]
             \<and> writes (trace s4) = writes (trace s) @ [w])"
proof (cases "length (addrs (area s)) \<le> idx (area s)")
  case True
  with assms(1) have "s' = exit_note s" by simp
  then show ?thesis by (simp add: exit_note_def emit_def writes_append)
next
  case False
  let ?a = "addrs (area s) ! idx (area s)"
  let ?s1 = "s\<lparr>area := (area s)\<lparr>idx := Suc (idx (area s))\<rparr>, n_stop := Suc (n_stop s)\<rparr>"
  show ?thesis
  proof (cases "stop_is_set e (n_stop s)")
    case True
    with assms(1) False have "s' = exit_note ?s1"
      by (simp add: next_address_def poll_stop_def Let_def)
    then show ?thesis by (simp add: exit_note_def emit_def writes_append)
  next
    case ns1: False
    show ?thesis
    proof (cases "pause_loop f e ?s1")
      case None
      with assms(1) False ns1 show ?thesis
        by (simp add: next_address_def poll_stop_def Let_def)
    next
      case (Some sp)
      then have "same_run ?s1 sp" by (rule pause_loop_same)
      then have sp: "deadlines sp = deadlines s" "trace sp = trace s"
        by (simp_all add: same_run_def)
      let ?s2 = "sp\<lparr>n_stop := Suc (n_stop sp)\<rparr>"
      show ?thesis
      proof (cases "stop_is_set e (n_stop sp)")
        case True
        with assms(1) False ns1 Some have "s' = exit_note ?s2"
          by (simp add: next_address_def poll_stop_def Let_def)
        then show ?thesis using sp by (simp add: exit_note_def emit_def writes_append)
      next
        case ns2: False
        let ?d = "t0 + (1 + real k) * period cfg"
        obtain S el where S: "deadlines S = deadlines s" "trace S = trace s"
          and body: "run_loop (Suc f) cfg e t0 shots k s =
            (if el
             then Some (log_profile_end ''duration_elapsed''
                          (S\<lparr>finished_reason := Some ''duration_elapsed''\<rparr>))
             else if (case max_shots cfg of None \<Rightarrow> False | Some m \<Rightarrow> m \<le> int shots)
             then Some (log_profile_end ''max_reached''
                          (S\<lparr>finished_reason := Some ''max_reached''\<rparr>))
             else (case inject cfg e ?a False (3 / 2) (maybe_first_shot_delay S) of
                     Inl s \<Rightarrow> Some (exit_note s)
                   | Inr s \<Rightarrow>
                       (case sleep_until f e ?d (s\<lparr>deadlines := deadlines s @ [?d]\<rparr>) of
                          None \<Rightarrow> None
                        | Some s \<Rightarrow> run_loop f cfg e t0 (Suc shots) (Suc k) s)))"
        proof (cases "duration_s cfg")
          case None
          have "run_loop (Suc f) cfg e t0 shots k s =
            (if False
             then Some (log_profile_end ''duration_elapsed''
                          (?s2\<lparr>finished_reason := Some ''duration_elapsed''\<rparr>))
             else if (case max_shots cfg of None \<Rightarrow> False | Some m \<Rightarrow> m \<le> int shots)
             then Some (log_profile_end ''max_reached''
                          (?s2\<lparr>finished_reason := Some ''max_reached''\<rparr>))
             else (case inject cfg e ?a False (3 / 2) (maybe_first_shot_delay ?s2) of
                     Inl s \<Rightarrow> Some (exit_note s)
                   | Inr s \<Rightarrow>
                       (case sleep_until f e ?d (s\<lparr>deadlines := deadlines s @ [?d]\<rparr>) of
                          None \<Rightarrow> None
                        | Some s \<Rightarrow> run_loop f cfg e t0 (Suc shots) (Suc k) s)))"
            using False ns1 Some ns2 assms(2,3) None
            by (simp add: next_address_def poll_stop_def Let_def split: sum.splits)
          moreover have "deadlines ?s2 = deadlines s" "trace ?s2 = trace s"
            using sp by simp_all
          ultimately show ?thesis using that [of ?s2 False] by blast
        next
          case (Some dd)
          let ?s2' = "sp\<lparr>n_stop := Suc (n_stop sp), n_clock := Suc (n_clock sp)\<rparr>"
          have "run_loop (Suc f) cfg e t0 shots k s =
            (if dd \<le> perf_counter e (n_clock sp) - t0
             then Some (log_profile_end ''duration_elapsed''
                          (?s2'\<lparr>finished_reason := Some ''duration_elapsed''\<rparr>))
             else if (case max_shots cfg of None \<Rightarrow> False | Some m \<Rightarrow> m \<le> int shots)
             then Some (log_profile_end ''max_reached''
                          (?s2'\<lparr>finished_reason := Some ''max_reached''\<rparr>))
             else (case inject cfg e ?a False (3 / 2) (maybe_first_shot_delay ?s2') of
                     Inl s \<Rightarrow> Some (exit_note s)
                   | Inr s \<Rightarrow>
                       (case sleep_until f e ?d (s\<lparr>deadlines := deadlines s @ [?d]\<rparr>) of
                          None \<Rightarrow> None
                        | Some s \<Rightarrow> run_loop f cfg e t0 (Suc shots) (Suc k) s)))"
            using False ns1 \<open>pause_loop f e ?s1 = Some sp\<close> ns2 assms(2,3) Some
            by (simp add: next_address_def poll_stop_def now_def Let_def split: sum.splits)
          moreover have "deadlines ?s2' = deadlines s" "trace ?s2' = trace s"
            using sp by simp_all
          ultimately show ?thesis
            using that [of ?s2' "dd \<le> perf_counter e (n_clock sp) - t0"] by blast
        qed
        consider (dur) "el"
          | (cap) "\<not> el" "case max_shots cfg of None \<Rightarrow> False | Some m \<Rightarrow> m \<le> int shots"
          | (fire) "\<not> el" "\<not> (case max_shots cfg of None \<Rightarrow> False | Some m \<Rightarrow> m \<le> int shots)"
          by blast
        then show ?thesis
        proof cases
          case dur
          with assms(1) body have "s' = log_profile_end ''duration_elapsed''
                          (S\<lparr>finished_reason := Some ''duration_elapsed''\<rparr>)"
            by (simp del: run_loop.simps)
          then show ?thesis using S
            by (simp add: log_profile_end_def emit_def writes_append Let_def)
        next
          case cap
          with assms(1) body have "s' = log_profile_end ''max_reached''
                          (S\<lparr>finished_reason := Some ''max_reached''\<rparr>)"
            by (simp del: run_loop.simps)
          then show ?thesis using S
            by (simp add: log_profile_end_def emit_def writes_append Let_def)
        next
          case fire
          have ms: "deadlines (maybe_first_shot_delay S) = deadlines s"
            "trace (maybe_first_shot_delay S) = trace s"
            using S by (simp_all add: maybe_first_shot_delay_def)
          show ?thesis
          proof (cases "inject cfg e ?a False (3 / 2) (maybe_first_shot_delay S)")
            case (Inl sx)
            with assms(1) body fire have "s' = exit_note sx"
              by (simp del: run_loop.simps)
            moreover from inject_Inl [OF Inl] ms
            have "deadlines sx = deadlines s" "writes (trace sx) = writes (trace s)" by simp_all
            ultimately show ?thesis
              by (simp add: exit_note_def emit_def writes_append)
          next
            case (Inr si)
            let ?s3 = "si\<lparr>deadlines := deadlines si @ [?d]\<rparr>"
            from inject_Inr [OF Inr] ms
            have si: "deadlines si = deadlines s"
              "writes (trace si) = writes (trace s) @ [''N '' @ ?a]" by simp_all
            have d3: "deadlines ?s3 = deadlines s @ [t0 + real (Suc k) * period cfg]"
              using si by simp
            have w3: "writes (trace ?s3) = writes (trace s) @ [''N '' @ ?a]"
              using si by simp
            from assms(1) body fire Inr obtain s4 where
              s4: "sleep_until f e ?d ?s3 = Some s4"
              and r: "run_loop f cfg e t0 (Suc shots) (Suc k) s4 = Some s'"
              by (auto simp del: run_loop.simps split: option.splits)
            from s4 have "same_run ?s3 s4" by (rule sleep_until_same)
            then have "deadlines s4 = deadlines ?s3" "trace s4 = trace ?s3"
              by (simp_all add: same_run_def)
            with d3 w3 r show ?thesis by auto
          qed
        qed
      qed
    qed
  qed
qed

lemma run_loop_deadlines:
  assumes "period cfg > 0" and "\<not> gated cfg"
  shows "run_loop f cfg e t0 shots k s = Some s' \<Longrightarrow>
    \<exists>j. deadlines s' = deadlines s @ map (\<lambda>i. t0 + real (k + Suc i) * period cfg) [0..<j]
       \<and> length (writes (trace s')) = length (writes (trace s)) + j"
proof (induction f arbitrary: s shots k)
  case 0
  then show ?case by simp
next
  case (Suc f)
  from run_loop_Suc_cases [OF Suc.prems assms]
  consider (stop) "deadlines s' = deadlines s" "writes (trace s') = writes (trace s)"
    | (fire) s4 w where "run_loop f cfg e t0 (Suc shots) (Suc k) s4 = Some s'"
             "deadlines s4 = deadlines s @ [t0 + real (Suc k) * period cfg]"
             "writes (trace s4) = writes (trace s) @ [w]"
    by blast
  then show ?case
  proof cases
    case stop
    then show ?thesis by (intro exI [of _ 0]) simp
  next
    case fire
    from Suc.IH [OF fire(1)] obtain j where
      j: "deadlines s' = deadlines s4 @ map (\<lambda>i. t0 + real (Suc k + Suc i) * period cfg) [0..<j]"
         "length (writes (trace s')) = length (writes (trace s4)) + j" by blast
    show ?thesis
      using j fire(2,3) by (intro exI [of _ "Suc j"]) (simp add: map_upt_Suc del: upt_Suc)
  qed
qed

lemma run_sched_init:
  "run fuel cfg e (sched_init a)
     = run_loop fuel cfg e (perf_counter e 0) 0 0 ((sched_init a)\<lparr>n_clock := Suc 0\<rparr>)"
  by (simp add: run_def now_def sched_init_def)

lemma run_ends:
  assumes "never_stopped e" and "never_paused e" and "clock_advances e"
    and "duration_s cfg = None" and "never_fails e" and "idx a = 0"
  shows "\<exists>F s'. (\<forall>fuel\<ge>F. run fuel cfg e (sched_init a) = Some s')
      \<and> writes (trace s') = map ((@) ''N '') (take (shots_to_fire cfg 0 (length (addrs a))) (addrs a))
      \<and> rx_reads (trace s') = 0
      \<and> finished_reason s' = (if cap_hit cfg 0 (length (addrs a)) then Some ''max_reached'' else None)
      \<and> idx (area s') = shots_to_fire cfg 0 (length (addrs a))
            + (if cap_hit cfg 0 (length (addrs a)) then 1 else 0)
      \<and> (period cfg > 0 \<and> \<not> gated cfg \<longrightarrow>
           deadlines s' = map (\<lambda>i. perf_counter e 0 + real (Suc i) * period cfg)
                            [0..<shots_to_fire cfg 0 (length (addrs a))])"
proof -
  let ?s = "(sched_init a)\<lparr>n_clock := Suc 0\<rparr>"
  have n: "length (addrs (area ?s)) - idx (area ?s) = length (addrs a)"
    using assms(6) by (simp add: sched_init_def)
  have f: "trace ?s = []" "finished_reason ?s = None" "area ?s = a" "deadlines ?s = []"
    by (simp_all add: sched_init_def)
  from run_loop_ends [OF assms(1-5) n, of "perf_counter e 0" 0 0]
  obtain F s' where "\<forall>fuel\<ge>F. run_loop fuel cfg e (perf_counter e 0) 0 0 ?s = Some s'"
    and "writes (trace s') = map ((@) ''N '') (take (shots_to_fire cfg 0 (length (addrs a))) (addrs a))"
    and "rx_reads (trace s') = 0"
    and "finished_reason s' = (if cap_hit cfg 0 (length (addrs a)) then Some ''max_reached'' else None)"
    and "idx (area s') = shots_to_fire cfg 0 (length (addrs a))
            + (if cap_hit cfg 0 (length (addrs a)) then 1 else 0)"
    and "period cfg > 0 \<and> \<not> gated cfg \<longrightarrow>
           deadlines s' = map (\<lambda>i. perf_counter e 0 + real (Suc i) * period cfg)
                            [0..<shots_to_fire cfg 0 (length (addrs a))]"
    unfolding f using assms(6) by auto
  then show ?thesis
    unfolding run_sched_init by blast
qed

lemma example_env_never_stopped: "never_stopped example_env"
  by (simp add: never_stopped_def example_env_def)

lemma example_env_never_paused: "never_paused example_env"
  by (simp add: never_paused_def example_env_def)

lemma example_env_never_fails: "never_fails example_env"
  by (simp add: never_fails_def example_env_def)

lemma example_env_clock_advances: "clock_advances example_env"
  unfolding clock_advances_def
proof (intro allI)
  fix n :: nat and d :: real
  obtain j :: nat where j: "20 * d \<le> real j" using real_arch_simple by blast
  have "n \<le> max n j" by simp
  moreover have "d \<le> perf_counter example_env (max n j)"
    using j by (simp add: example_env_def)
  ultimately show "\<exists>m\<ge>n. d \<le> perf_counter example_env m"
    by blast
qed

lemma profile_watcher_report_None:
  "profile_watcher_report None = [LogProfTime ''finished'', Info ''Time profile [UNIFORM] finished.'']"
  by (simp add: profile_watcher_report_def strip_def)

lemma example_run_capped:
  "run 20 example_uniform example_env (sched_init example_profile) = Some example_final"
  by code_simp

lemma example_run_uncapped:
  "run 20 example_uniform_uncapped example_env (sched_init example_profile) = Some example_final"
  by code_simp

text \<open>
  Claim C3, on scenario A: over the three addresses of the example file, at 10 Hz with
  \<open>max_shots = 3\<close>, the run sends the three commands \<open>N <addr>\<close> in file order, as the
  claim says, and then ends because the address iterator is exhausted: the loop
  \<open>for addr in addr_it\<close> asks for the next address before the guard on \<open>max_shots\<close> is
  evaluated again, so the shot count has reached \<open>max_shots\<close> and \<open>finished_reason\<close>
  is still \<open>None\<close>, where the claim has \<open>max_reached\<close>.
\<close>

theorem C3_scenario_A_ends_without_reason:
  "max_shots example_uniform = Some 3 \<and> period example_uniform = 1 / 10
   \<and> duration_s example_uniform = None \<and> \<not> gated example_uniform
   \<and> addrs example_profile = [''00000000AB'', ''0123456789'', ''FFFFFFFFFF'']
   \<and> idx example_profile = 0
   \<and> map_option (\<lambda>s. (writes (trace s), finished_reason s))
        (run 20 example_uniform example_env (sched_init example_profile))
       = Some ([''N 00000000AB'', ''N 0123456789'', ''N FFFFFFFFFF''], None)
   \<and> map_option finished_reason
        (run 20 example_uniform example_env (sched_init example_profile))
       \<noteq> Some (Some ''max_reached'')"
  using example_run_capped
  by (simp add: example_uniform_def example_profile_def example_final_def
      uniform_period_def gated_def)

text \<open>
  The same in general: with a cap of \<open>m\<close> shots, no duration bound, the stop and pause
  events never set and no write failing, the run ends and has sent exactly the
  commands \<open>N <addr>\<close> of the first \<open>m\<close> addresses in list order; it sets the reason
  \<open>max_reached\<close> only when the list holds more than \<open>m\<close> addresses, and leaves
  \<open>finished_reason\<close> unset when the list holds \<open>m\<close> addresses or fewer.
\<close>

theorem uniform_cap_reason:
  assumes "never_stopped e" and "never_paused e" and "clock_advances e"
    and "duration_s cfg = None" and "max_shots cfg = Some m" and "0 \<le> m"
    and "idx a = 0" and "never_fails e"
  shows "\<exists>F s'. (\<forall>fuel\<ge>F. run fuel cfg e (sched_init a) = Some s')
      \<and> writes (trace s') = map ((@) ''N '') (take (nat m) (addrs a))
      \<and> finished_reason s' = (if m < int (length (addrs a)) then Some ''max_reached'' else None)"
proof -
  have "take (shots_to_fire cfg 0 (length (addrs a))) (addrs a) = take (nat m) (addrs a)"
    using assms(5) by (simp add: shots_to_fire_def min_def)
  moreover have "cap_hit cfg 0 (length (addrs a)) = (m < int (length (addrs a)))"
    using assms(5,6) by (auto simp add: cap_hit_def)
  moreover obtain F s' where "\<forall>fuel\<ge>F. run fuel cfg e (sched_init a) = Some s'"
    and "writes (trace s') = map ((@) ''N '') (take (shots_to_fire cfg 0 (length (addrs a))) (addrs a))"
    and "finished_reason s' = (if cap_hit cfg 0 (length (addrs a)) then Some ''max_reached'' else None)"
    using run_ends [OF assms(1-4) assms(8) assms(7)] by blast
  ultimately show ?thesis
    by (intro exI [of _ F] exI [of _ s']) simp
qed

theorem uniform_cap_reason_example:
  "never_stopped example_env \<and> never_paused example_env \<and> clock_advances example_env
   \<and> duration_s example_uniform = None \<and> max_shots example_uniform = Some 3
   \<and> idx example_profile = 0 \<and> length (addrs example_profile) = 3
   \<and> never_fails example_env
   \<and> (\<exists>F s'. (\<forall>fuel\<ge>F. run fuel example_uniform example_env (sched_init example_profile) = Some s')
        \<and> writes (trace s') = [''N 00000000AB'', ''N 0123456789'', ''N FFFFFFFFFF'']
        \<and> finished_reason s' = None)"
proof -
  have h: "duration_s example_uniform = None" "max_shots example_uniform = Some 3"
    "(0::int) \<le> 3" "idx example_profile = 0"
    by (simp_all add: example_uniform_def example_profile_def)
  show ?thesis
    using uniform_cap_reason [OF example_env_never_stopped example_env_never_paused
        example_env_clock_advances h example_env_never_fails]
    by (simp add: example_env_never_stopped example_env_never_paused
        example_env_clock_advances example_env_never_fails h) (simp add: example_profile_def)
qed

lemma profile_watcher_report_area_exhausted:
  "profile_watcher_report (Some ''area_exhausted'')
     = [LogProfArea ''finished'',
        Info ''Area profile [ADDRESS_LIST] finished. Address list exhausted.'']"
  by code_simp

text \<open>
  Claim C4, on the run over the three addresses of the example file with no cap and
  no duration: the run ends with the cursor at the end of the list and
  \<open>finished_reason\<close> unset, as the claim says; but the watcher, which looks only at
  \<open>finished_reason\<close>, then reports a plain end of the time profile, where the claim
  has the caller detect the exhaustion of the area. The watcher's branch for the
  exhausted area is taken only for the reason \<open>area_exhausted\<close>, which the uniform
  profile never sets.
\<close>

theorem C4_watcher_reports_no_exhaustion:
  "max_shots example_uniform_uncapped = None \<and> duration_s example_uniform_uncapped = None
   \<and> run 20 example_uniform_uncapped example_env (sched_init example_profile)
       = Some example_final
   \<and> idx (area example_final) = length (addrs (area example_final))
   \<and> finished_reason example_final = None
   \<and> profile_watcher_report (finished_reason example_final)
       = [LogProfTime ''finished'', Info ''Time profile [UNIFORM] finished.'']
   \<and> profile_watcher_report (finished_reason example_final)
       \<noteq> profile_watcher_report (Some ''area_exhausted'')"
  using example_run_uncapped
  by (simp add: example_uniform_uncapped_def example_uniform_def example_final_def
      profile_watcher_report_None profile_watcher_report_area_exhausted)

text \<open>
  The same in general: with no duration bound, no shot cap, the stop and pause
  events never set and no write failing, the run ends once the address sequence is
  exhausted; it has sent
  one command for each address, the cursor stands at the end of the list,
  \<open>finished_reason\<close> is unset, and the watcher logs a plain end of the time profile.
\<close>

theorem uniform_exhaustion_unreported:
  assumes "never_stopped e" and "never_paused e" and "clock_advances e"
    and "duration_s cfg = None" and "max_shots cfg = None" and "idx a = 0"
    and "never_fails e"
  shows "\<exists>F s'. (\<forall>fuel\<ge>F. run fuel cfg e (sched_init a) = Some s')
      \<and> writes (trace s') = map ((@) ''N '') (addrs a)
      \<and> idx (area s') = length (addrs a)
      \<and> finished_reason s' = None
      \<and> profile_watcher_report (finished_reason s')
          = [LogProfTime ''finished'', Info ''Time profile [UNIFORM] finished.'']"
proof -
  have "shots_to_fire cfg 0 (length (addrs a)) = length (addrs a)"
    using assms(5) by (simp add: shots_to_fire_def)
  moreover have "\<not> cap_hit cfg 0 (length (addrs a))"
    using assms(5) by (simp add: cap_hit_def)
  moreover obtain F s' where "\<forall>fuel\<ge>F. run fuel cfg e (sched_init a) = Some s'"
    and "writes (trace s') = map ((@) ''N '') (take (shots_to_fire cfg 0 (length (addrs a))) (addrs a))"
    and "finished_reason s' = (if cap_hit cfg 0 (length (addrs a)) then Some ''max_reached'' else None)"
    and "idx (area s') = shots_to_fire cfg 0 (length (addrs a))
            + (if cap_hit cfg 0 (length (addrs a)) then 1 else 0)"
    using run_ends [OF assms(1-4) assms(7) assms(6)] by blast
  ultimately show ?thesis
    by (intro exI [of _ F] exI [of _ s']) (simp add: profile_watcher_report_None)
qed

theorem uniform_exhaustion_unreported_example:
  "never_stopped example_env \<and> never_paused example_env \<and> clock_advances example_env
   \<and> duration_s example_uniform_uncapped = None \<and> max_shots example_uniform_uncapped = None
   \<and> idx example_profile = 0 \<and> never_fails example_env
   \<and> (\<exists>F s'. (\<forall>fuel\<ge>F. run fuel example_uniform_uncapped example_env
                              (sched_init example_profile) = Some s')
        \<and> writes (trace s') = [''N 00000000AB'', ''N 0123456789'', ''N FFFFFFFFFF'']
        \<and> idx (area s') = 3
        \<and> finished_reason s' = None
        \<and> profile_watcher_report (finished_reason s')
            = [LogProfTime ''finished'', Info ''Time profile [UNIFORM] finished.''])"
proof -
  have h: "duration_s example_uniform_uncapped = None" "max_shots example_uniform_uncapped = None"
    "idx example_profile = 0"
    by (simp_all add: example_uniform_uncapped_def example_uniform_def example_profile_def)
  show ?thesis
    using uniform_exhaustion_unreported [OF example_env_never_stopped
        example_env_never_paused example_env_clock_advances h example_env_never_fails]
    by (simp add: example_env_never_stopped example_env_never_paused
        example_env_clock_advances example_env_never_fails h)
       (simp add: example_profile_def numeral_3_eq_3)
qed

text \<open>
  Claim C5: with a positive period and no acknowledgement gating, every run that
  ends has scheduled, after its k-th injection, the deadline \<open>t0 + k * period\<close>,
  where \<open>t0\<close> is the first reading of the clock, whatever the later readings are;
  and with the stop and pause events never set, no write failing, an advancing clock
  and no duration bound, the run does end, with exactly these deadlines.
\<close>

theorem C5_deadlines_from_fixed_origin:
  assumes "period cfg > 0" and "\<not> gated cfg"
  shows "(run fuel cfg e (sched_init a) = Some s' \<longrightarrow>
            length (deadlines s') = length (writes (trace s'))
            \<and> (\<forall>i<length (deadlines s').
                  deadlines s' ! i = perf_counter e 0 + real (Suc i) * period cfg))
       \<and> (never_stopped e \<and> never_paused e \<and> clock_advances e \<and> duration_s cfg = None
            \<and> never_fails e \<and> idx a = 0 \<longrightarrow>
            (\<exists>F s''. (\<forall>fuel\<ge>F. run fuel cfg e (sched_init a) = Some s'')
               \<and> deadlines s'' = map (\<lambda>i. perf_counter e 0 + real (Suc i) * period cfg)
                                    [0..<shots_to_fire cfg 0 (length (addrs a))]))"
proof (intro conjI impI)
  assume "run fuel cfg e (sched_init a) = Some s'"
  then have "run_loop fuel cfg e (perf_counter e 0) 0 0 ((sched_init a)\<lparr>n_clock := Suc 0\<rparr>)
               = Some s'" by (simp add: run_sched_init)
  from run_loop_deadlines [OF assms this] obtain j where
    j: "deadlines s' = map (\<lambda>i. perf_counter e 0 + real (Suc i) * period cfg) [0..<j]"
       "length (writes (trace s')) = j"
    by (auto simp add: sched_init_def)
  show "length (deadlines s') = length (writes (trace s'))" using j by simp
  show "\<forall>i<length (deadlines s').
          deadlines s' ! i = perf_counter e 0 + real (Suc i) * period cfg"
    using j(1) by simp
next
  assume a: "never_stopped e \<and> never_paused e \<and> clock_advances e \<and> duration_s cfg = None
            \<and> never_fails e \<and> idx a = 0"
  then have "never_stopped e" "never_paused e" "clock_advances e" "duration_s cfg = None"
    "never_fails e" "idx a = 0" by simp_all
  from run_ends [OF this] assms
  show "\<exists>F s''. (\<forall>fuel\<ge>F. run fuel cfg e (sched_init a) = Some s'')
               \<and> deadlines s'' = map (\<lambda>i. perf_counter e 0 + real (Suc i) * period cfg)
                                    [0..<shots_to_fire cfg 0 (length (addrs a))]"
    by blast
qed

theorem C5_deadlines_from_fixed_origin_witness:
  "0 < period example_uniform \<and> \<not> gated example_uniform
   \<and> run 20 example_uniform example_env (sched_init example_profile) = Some example_final
   \<and> never_stopped example_env \<and> never_paused example_env \<and> clock_advances example_env
   \<and> duration_s example_uniform = None \<and> never_fails example_env \<and> idx example_profile = 0
   \<and> length (deadlines example_final) = length (writes (trace example_final))
   \<and> deadlines example_final ! 2
       = perf_counter example_env 0 + real (Suc 2) * period example_uniform
   \<and> deadlines example_final = [1 / 10, 1 / 5, 3 / 10]"
proof -
  have p: "0 < period example_uniform"
    by (simp add: example_uniform_def uniform_period_def)
  have g: "\<not> gated example_uniform"
    by (simp add: example_uniform_def gated_def)
  have h: "duration_s example_uniform = None" "idx example_profile = 0"
    by (simp_all add: example_uniform_def example_profile_def)
  have l: "length (deadlines example_final) = 3" "deadlines example_final = [1 / 10, 1 / 5, 3 / 10]"
    by (simp_all add: example_final_def)
  from C5_deadlines_from_fixed_origin [OF p g, of 20 example_env example_profile example_final]
  have a: "length (deadlines example_final) = length (writes (trace example_final))"
    and b: "\<forall>i<length (deadlines example_final). deadlines example_final ! i
            = perf_counter example_env 0 + real (Suc i) * period example_uniform"
    using example_run_capped by simp_all
  have "(2::nat) < length (deadlines example_final)" using l(1) by simp
  with b have c: "deadlines example_final ! 2
       = perf_counter example_env 0 + real (Suc 2) * period example_uniform" by blast
  show ?thesis
    using p g h l(2) a c example_run_capped example_env_never_stopped example_env_never_paused
      example_env_clock_advances example_env_never_fails by (intro conjI) assumption+
qed


end
